theory Spec2Isabelle
  imports Complex_Main "HOL-Library.AList" "HOL-Library.Multiset"
begin

section \<open>Candidate aggregation (\<open>groupedCandidates\<close> in ScanWorkbenchPage.tsx)\<close>

text \<open>
  The \<open>Candidate\<close> interface of \<open>types/api.ts\<close>, restricted to the fields the page
  reads. A field that may be absent, \<open>null\<close> or of another type is an \<open>option\<close>.
  Scores are JavaScript numbers, modelled as exact reals; \<open>frequency\<close> is an
  occurrence count, a natural number. The field \<open>value\<close> is written \<open>value_c\<close>.
\<close>

record metadata =
  file_name :: "string option"
  sit_category :: "string option"
  extraction_module :: "string option"
  ocr_performed :: "bool option"

record candidate =
  candidate_id :: string
  candidate_type :: string
  value_c :: string
  frequency :: nat
  score :: "real option"
  metadata :: "metadata option"

text \<open>
  The value type of the \<open>grouped\<close> map. Fields that share a name with a field of
  \<open>candidate\<close> carry the suffix \<open>_g\<close>.
\<close>

record group =
  key :: string
  candidate_id_g :: string
  candidate_type_g :: string
  value_g :: string
  score_g :: "real option"
  frequency_g :: nat
  fileNames :: "string list"
  sitCategory :: "string option"
  extractionModules :: "string list"
  ocrStates :: "bool list"

text \<open>\<open>candidate.metadata?.f\<close>: the field \<open>f\<close> of the metadata, when there is one.\<close>

definition meta :: "(metadata \<Rightarrow> 'a option) \<Rightarrow> candidate \<Rightarrow> 'a option" where
  "meta f c = (case metadata c of None \<Rightarrow> None | Some m \<Rightarrow> f m)"

text \<open>JavaScript truthiness of a string, and of a string that may be \<open>null\<close>.\<close>

definition truthy :: "string \<Rightarrow> bool" where
  "truthy s = (s \<noteq> [])"

definition truthy_opt :: "string option \<Rightarrow> bool" where
  "truthy_opt s = (case s of None \<Rightarrow> False | Some t \<Rightarrow> truthy t)"

text \<open>\<open>x ?? -1\<close> on a score.\<close>

definition score_or :: "real option \<Rightarrow> real" where
  "score_or s = (case s of None \<Rightarrow> - 1 | Some x \<Rightarrow> x)"

text \<open>The map key \<open>`${candidate.candidate_type}::${candidate.value}`\<close>.\<close>

definition candidate_key :: "candidate \<Rightarrow> string" where
  "candidate_key c = candidate_type c @ ''::'' @ value_c c"

text \<open>
  \<open>candidate.metadata?.sit_category ?? scanSitCategory\<close>: the label the loop body
  works with for one candidate.
\<close>

definition effective_category :: "string option \<Rightarrow> candidate \<Rightarrow> string option" where
  "effective_category scanSitCategory c =
     (case meta sit_category c of Some s \<Rightarrow> Some s | None \<Rightarrow> scanSitCategory)"

text \<open>The branch \<open>if (!existing)\<close>: the group stored for the first candidate of a key.\<close>

definition new_group :: "string option \<Rightarrow> candidate \<Rightarrow> group" where
  "new_group scanSitCategory c =
     \<lparr> key = candidate_key c,
       candidate_id_g = candidate_id c,
       candidate_type_g = candidate_type c,
       value_g = value_c c,
       score_g = score c,
       frequency_g = frequency c,
       fileNames = (case meta file_name c of
                      Some fileName \<Rightarrow> if truthy fileName then [fileName] else []
                    | None \<Rightarrow> []),
       sitCategory = effective_category scanSitCategory c,
       extractionModules = (case meta extraction_module c of
                      Some extractionModule \<Rightarrow>
                        if truthy extractionModule then [extractionModule] else []
                    | None \<Rightarrow> []),
       ocrStates = (case meta ocr_performed c of
                      None \<Rightarrow> []
                    | Some ocrPerformed \<Rightarrow> [ocrPerformed]) \<rparr>"

text \<open>The rest of the loop body: the updates made to an existing group, in place.\<close>

definition merge_group :: "string option \<Rightarrow> group \<Rightarrow> candidate \<Rightarrow> group" where
  "merge_group scanSitCategory existing c =
     existing
     \<lparr> frequency_g := frequency_g existing + frequency c,
       score_g := (if score_or (score c) > score_or (score_g existing)
                   then score c else score_g existing),
       fileNames := (case meta file_name c of
                       Some fileName \<Rightarrow>
                         if truthy fileName \<and> fileName \<notin> set (fileNames existing)
                         then fileNames existing @ [fileName] else fileNames existing
                     | None \<Rightarrow> fileNames existing),
       sitCategory := (if \<not> truthy_opt (sitCategory existing)
                          \<and> truthy_opt (effective_category scanSitCategory c)
                       then effective_category scanSitCategory c
                       else sitCategory existing),
       extractionModules := (case meta extraction_module c of
                       Some extractionModule \<Rightarrow>
                         if truthy extractionModule
                            \<and> extractionModule \<notin> set (extractionModules existing)
                         then extractionModules existing @ [extractionModule]
                         else extractionModules existing
                     | None \<Rightarrow> extractionModules existing),
       ocrStates := (case meta ocr_performed c of
                       Some ocrPerformed \<Rightarrow>
                         if ocrPerformed \<notin> set (ocrStates existing)
                         then ocrStates existing @ [ocrPerformed] else ocrStates existing
                     | None \<Rightarrow> ocrStates existing) \<rparr>"

text \<open>
  One iteration of \<open>for (const candidate of candidates)\<close>. The \<open>Map\<close> keeps its keys in
  insertion order, so it is an association list: \<open>grouped.get\<close> is \<open>map_of\<close>, and both
  \<open>grouped.set\<close> on a new key and the mutation of a stored group are \<open>AList.update\<close>
  (append at the end, or replace where the key is).
\<close>

definition absorb :: "string option \<Rightarrow> (string \<times> group) list \<Rightarrow> candidate \<Rightarrow> (string \<times> group) list" where
  "absorb scanSitCategory grouped c =
     (case map_of grouped (candidate_key c) of
        None \<Rightarrow> AList.update (candidate_key c) (new_group scanSitCategory c) grouped
      | Some existing \<Rightarrow>
          AList.update (candidate_key c) (merge_group scanSitCategory existing c) grouped)"

text \<open>
  \<open>Array.prototype.sort\<close> with a comparator: a stable sort, here by insertion.
  An element goes before the first element it does not compare greater than.
\<close>

fun insort_cmp :: "('a \<Rightarrow> 'a \<Rightarrow> real) \<Rightarrow> 'a \<Rightarrow> 'a list \<Rightarrow> 'a list" where
  "insort_cmp cmp x [] = [x]"
| "insort_cmp cmp x (y # ys) =
     (if cmp x y \<le> 0 then x # y # ys else y # insort_cmp cmp x ys)"

definition sort_cmp :: "('a \<Rightarrow> 'a \<Rightarrow> real) \<Rightarrow> 'a list \<Rightarrow> 'a list" where
  "sort_cmp cmp xs = foldr (insort_cmp cmp) xs []"

text \<open>The comparator \<open>(a, b) => (b.score ?? -1) - (a.score ?? -1)\<close>.\<close>

definition by_score_desc :: "group \<Rightarrow> group \<Rightarrow> real" where
  "by_score_desc a b = score_or (score_g b) - score_or (score_g a)"

definition grouped_map :: "string option \<Rightarrow> candidate list \<Rightarrow> (string \<times> group) list" where
  "grouped_map scanSitCategory candidates = foldl (absorb scanSitCategory) [] candidates"

definition groupedCandidates :: "string option \<Rightarrow> candidate list \<Rightarrow> group list" where
  "groupedCandidates scanSitCategory candidates =
     sort_cmp by_score_desc (map snd (grouped_map scanSitCategory candidates))"

subsection \<open>The OCR column\<close>

text \<open>
  \<open>ScanSummary\<close> and \<open>ScanDetail\<close> of \<open>types/api.ts\<close>; the detail has every field of
  the summary and more. \<open>name\<close> is written \<open>scan_name\<close>, and the detail's metadata is
  kept to the key the page reads as a string, \<open>sit_category\<close>.
\<close>

record scan_summary =
  scan_id :: string
  scan_name :: "string option"
  scan_type :: string
  status :: string
  source_files_count :: "nat option"

record scan_detail = scan_summary +
  detail_sit_category :: "string option"

text \<open>What \<open>activeScanSummary\<close> is read for: \<open>scan_type\<close>, \<open>status\<close>, \<open>source_files_count\<close>.\<close>

record active_summary =
  scan_type_a :: string
  status_a :: string
  source_files_count_a :: "nat option"

text \<open>\<open>scans.find((scan) => scan.scan_id === selectedScanId) ?? null\<close>.\<close>

definition selectedScan :: "scan_summary list \<Rightarrow> string \<Rightarrow> scan_summary option" where
  "selectedScan scans selectedScanId = find (\<lambda>scan. scan_id scan = selectedScanId) scans"

text \<open>\<open>selectedScan ?? (scanDetails ? {...} : null)\<close>.\<close>

definition activeScanSummary ::
  "scan_summary list \<Rightarrow> string \<Rightarrow> scan_detail option \<Rightarrow> active_summary option" where
  "activeScanSummary scans selectedScanId scanDetails =
     (case selectedScan scans selectedScanId of
        Some s \<Rightarrow> Some \<lparr> scan_type_a = scan_type s, status_a = status s,
                         source_files_count_a = source_files_count s \<rparr>
      | None \<Rightarrow>
          (case scanDetails of
             Some d \<Rightarrow> Some \<lparr> scan_type_a = scan_type d, status_a = status d,
                              source_files_count_a = source_files_count d \<rparr>
           | None \<Rightarrow> None))"

text \<open>\<open>activeScanSummary?.scan_type === 'sentence_transformer'\<close>.\<close>

definition ocrColumnNotApplicable :: "active_summary option \<Rightarrow> bool" where
  "ocrColumnNotApplicable active =
     (case active of None \<Rightarrow> False | Some a \<Rightarrow> scan_type_a a = ''sentence_transformer'')"

text \<open>The content of the OCR cell of one table row.\<close>

definition ocr_cell :: "bool \<Rightarrow> group \<Rightarrow> string" where
  "ocr_cell notApplicable g =
     (if notApplicable then ''N/A''
      else if length (ocrStates g) = 0 then ''-''
      else if length (ocrStates g) = 1 then (if ocrStates g ! 0 then ''Yes'' else ''No'')
      else ''Mixed'')"

section \<open>The working file set (\<open>mergeFiles\<close>)\<close>

text \<open>
  A browser \<open>File\<close>: \<open>size\<close> is a byte count and \<open>lastModified\<close> a whole number of
  milliseconds. \<open>size\<close> and \<open>type\<close> are written \<open>size_bytes\<close> and \<open>type_f\<close>; \<open>content\<close>
  stands for the bytes, so that two files with the same name, size and time stamp can
  still be told apart.
\<close>

record File =
  name :: string
  size_bytes :: nat
  lastModified :: int
  type_f :: string
  content :: string

text \<open>
  What a template literal makes of a whole number: its decimal digits, after a minus
  sign when it is negative.
\<close>

definition digit_char :: "nat \<Rightarrow> char" where
  "digit_char d = char_of (48 + d)"

fun show_nat :: "nat \<Rightarrow> string" where
  "show_nat n = (if n < 10 then [digit_char n] else show_nat (n div 10) @ [digit_char (n mod 10)])"

declare show_nat.simps [simp del]

definition show_int :: "int \<Rightarrow> string" where
  "show_int i = (if i < 0 then CHR ''-'' # show_nat (nat (- i)) else show_nat (nat i))"

text \<open>The map key \<open>`${file.name}:${file.size}:${file.lastModified}`\<close>.\<close>

definition fileKey :: "File \<Rightarrow> string" where
  "fileKey f = name f @ '':'' @ show_nat (size_bytes f) @ '':'' @ show_int (lastModified f)"

text \<open>\<open>map.set(key, file)\<close> for one file.\<close>

definition set_file :: "(string \<times> File) list \<Rightarrow> File \<Rightarrow> (string \<times> File) list" where
  "set_file m f = AList.update (fileKey f) f m"

text \<open>
  \<open>mergeFiles\<close> as a function from the previous \<open>files\<close> state to the next one:
  nothing changes for an empty \<open>incoming\<close>; otherwise a \<open>Map\<close> is built from the
  previous files, every incoming file is set in it, and its values are the new state.
\<close>

definition mergeFiles :: "File list \<Rightarrow> File list \<Rightarrow> File list" where
  "mergeFiles prev incoming =
     (if length incoming = 0 then prev
      else map snd (foldl set_file (foldl set_file [] prev) incoming))"

text \<open>Two files agree in name, byte length and time stamp.\<close>

definition same_identity :: "File \<Rightarrow> File \<Rightarrow> bool" where
  "same_identity a b =
     (name a = name b \<and> size_bytes a = size_bytes b \<and> lastModified a = lastModified b)"

section \<open>Collecting dropped files\<close>

text \<open>
  A \<open>FileSystemEntry\<close>. A file entry yields its \<open>File\<close> or fails; a directory entry has
  a name and a reader, given by the batches that successive \<open>readEntries\<close> calls return
  and by what the reader does once they are used up: report an empty batch, or fail.
  A directory holds finitely many entries, so the batches form a list, and the loop
  over them ends. An entry may also be neither a file nor a directory.
\<close>

datatype read_end = EndOfDirectory | ReadError

datatype entry =
    FileEntry "File option"
  | DirectoryEntry string "entry list list" read_end
  | OtherEntry

text \<open>
  The loop of \<open>readAllDirectoryEntries\<close>: it stops at the first empty batch. \<open>None\<close> is
  a rejected promise.
\<close>

fun readAllDirectoryEntries :: "entry list list \<Rightarrow> read_end \<Rightarrow> entry list option" where
  "readAllDirectoryEntries [] EndOfDirectory = Some []"
| "readAllDirectoryEntries [] ReadError = None"
| "readAllDirectoryEntries (batch # rest) e =
     (if length batch = 0 then Some []
      else map_option (\<lambda>more. batch @ more) (readAllDirectoryEntries rest e))"

text \<open>
  \<open>collectFilesFromEntry\<close>. A file below a folder gets the folder path in front of
  its name, in a new \<open>File\<close> with the same bytes, type and time stamp. \<open>Promise.all\<close>
  over the children is \<open>those\<close>: it fails when one child fails. The recursion ends
  because every child read from a directory is smaller than the directory entry.
\<close>

function collectFilesFromEntry :: "entry \<Rightarrow> string \<Rightarrow> File list option" where
  "collectFilesFromEntry (FileEntry None) parentPath = None"
| "collectFilesFromEntry (FileEntry (Some file)) parentPath =
     (if \<not> truthy parentPath then Some [file]
      else Some [file\<lparr> name := parentPath @ ''/'' @ name file \<rparr>])"
| "collectFilesFromEntry (DirectoryEntry dirName batches e) parentPath =
     (case readAllDirectoryEntries batches e of
        None \<Rightarrow> None
      | Some children \<Rightarrow>
          map_option concat
            (those (map (\<lambda>child. collectFilesFromEntry child
                           (if truthy parentPath then parentPath @ ''/'' @ dirName else dirName))
                        children)))"
| "collectFilesFromEntry OtherEntry parentPath = Some []"
  by pat_completeness auto
termination
proof (relation "measure (\<lambda>(en, parentPath). size en)")
  show "wf (measure (\<lambda>(en, parentPath). size en))"
    by simp
next
  fix dirName :: string and batches e and parentPath :: string and children child
  assume read: "readAllDirectoryEntries batches e = Some children"
    and child: "child \<in> set children"
  have "size child < Suc (size_list (size_list size) batches)"
    using read child
  proof (induction batches arbitrary: children)
    case Nil
    then show ?case by (cases e) simp_all
  next
    case (Cons batch rest)
    show ?case
    proof (cases "length batch = 0")
      case True
      with Cons.prems show ?thesis by simp
    next
      case False
      with Cons.prems obtain more where more: "readAllDirectoryEntries rest e = Some more"
        "children = batch @ more" by auto
      show ?thesis
      proof (cases "child \<in> set batch")
        case True
        then have "size child \<le> size_list size batch" by (simp add: size_list_estimation')
        then show ?thesis by simp
      next
        case False
        with more Cons.prems have "child \<in> set more" by simp
        from Cons.IH [OF more(1) this] show ?thesis by simp
      qed
    qed
  qed
  then show "((child, if truthy parentPath then parentPath @ ''/'' @ dirName else dirName),
              (DirectoryEntry dirName batches e, parentPath))
             \<in> measure (\<lambda>(en, parentPath). size en)"
    by simp
qed

text \<open>
  The \<open>DataTransfer\<close> of a drop: for each item what \<open>webkitGetAsEntry\<close> gives
  (\<open>None\<close> when the method is missing or returns \<open>null\<close>), and the flat \<open>files\<close> list.
\<close>

record dataTransfer =
  dt_items :: "entry option list"
  dt_files :: "File list"

text \<open>The local \<open>entries\<close>: the items that gave an entry.\<close>

definition dropped_entries :: "dataTransfer \<Rightarrow> entry list" where
  "dropped_entries dt = concat (map (\<lambda>item. case item of None \<Rightarrow> [] | Some en \<Rightarrow> [en]) (dt_items dt))"

definition extractDroppedFiles :: "dataTransfer \<Rightarrow> File list option" where
  "extractDroppedFiles dt =
     (if length (dropped_entries dt) = 0 then Some (dt_files dt)
      else case those (map (\<lambda>en. collectFilesFromEntry en []) (dropped_entries dt)) of
             None \<Rightarrow> None
           | Some collected \<Rightarrow>
               Some (if length (concat collected) > 0 then concat collected else dt_files dt))"

section \<open>Submitting a scan\<close>

text \<open>
  The part of the page state that \<open>submitScan\<close> and the force-OCR effect read.
  \<open>sitCategory\<close> of the state is written \<open>sitCategory_s\<close>.
\<close>

record form_state =
  files :: "File list"
  scanName :: string
  sitCategory_s :: string
  customSitCategory :: string
  preserveCase :: bool
  forceOcr :: bool
  scanType :: string
  userPrincipalName :: string
  exchangeToken :: "string option"
  exchangeOrganization :: string

text \<open>The \<open>options\<close> argument of \<open>api.createScan\<close>; \<open>None\<close> is \<open>undefined\<close>.\<close>

record create_options =
  opt_name :: string
  opt_scanType :: string
  opt_sitCategory :: string
  opt_userPrincipalName :: "string option"
  opt_exchangeAccessToken :: "string option"
  opt_exchangeOrganization :: "string option"
  opt_preserveCase :: bool
  opt_forceOcr :: bool

text \<open>The multipart form that \<open>api.createScan\<close> posts to \<open>/scans\<close>.\<close>

record scan_request =
  form_files :: "File list"
  form_fields :: "(string \<times> string) list"

definition field_if :: "bool \<Rightarrow> string \<Rightarrow> string \<Rightarrow> (string \<times> string) list" where
  "field_if b k v = (if b then [(k, v)] else [])"

definition createScan :: "File list \<Rightarrow> create_options \<Rightarrow> scan_request" where
  "createScan fs options =
     \<lparr> form_files = fs,
       form_fields =
         field_if (truthy (opt_name options)) ''name'' (opt_name options)
         @ field_if (truthy (opt_scanType options)) ''scan_type'' (opt_scanType options)
         @ field_if (truthy (opt_sitCategory options)) ''sit_category'' (opt_sitCategory options)
         @ (case opt_userPrincipalName options of None \<Rightarrow> []
            | Some v \<Rightarrow> field_if (truthy v) ''user_principal_name'' v)
         @ (case opt_exchangeAccessToken options of None \<Rightarrow> []
            | Some v \<Rightarrow> field_if (truthy v) ''exchange_access_token'' v)
         @ (case opt_exchangeOrganization options of None \<Rightarrow> []
            | Some v \<Rightarrow> field_if (truthy v) ''exchange_organization'' v)
         @ field_if (opt_preserveCase options) ''preserve_case'' ''true''
         @ field_if (opt_forceOcr options) ''force_ocr'' ''true'' \<rparr>"

text \<open>
  \<open>String.prototype.trim\<close>. A string is read as the UTF-8 bytes of its text. The white
  space and line terminator code points of ECMAScript are U+0009 to U+000D, U+0020,
  U+00A0, U+1680, U+2000 to U+200A, U+2028, U+2029, U+202F, U+205F, U+3000 and U+FEFF;
  \<open>white_space\<close> lists their byte sequences. \<open>strip_leading\<close> removes such sequences
  from the front as long as there is one, and \<open>trim\<close> does so at both ends.
\<close>

definition white_space :: "string list" where
  "white_space =
     [[CHR 0x09], [CHR 0x0A], [CHR 0x0B], [CHR 0x0C], [CHR 0x0D], [CHR 0x20],
      [CHR 0xC2, CHR 0xA0],
      [CHR 0xE1, CHR 0x9A, CHR 0x80],
      [CHR 0xE2, CHR 0x80, CHR 0x80], [CHR 0xE2, CHR 0x80, CHR 0x81],
      [CHR 0xE2, CHR 0x80, CHR 0x82], [CHR 0xE2, CHR 0x80, CHR 0x83],
      [CHR 0xE2, CHR 0x80, CHR 0x84], [CHR 0xE2, CHR 0x80, CHR 0x85],
      [CHR 0xE2, CHR 0x80, CHR 0x86], [CHR 0xE2, CHR 0x80, CHR 0x87],
      [CHR 0xE2, CHR 0x80, CHR 0x88], [CHR 0xE2, CHR 0x80, CHR 0x89],
      [CHR 0xE2, CHR 0x80, CHR 0x8A],
      [CHR 0xE2, CHR 0x80, CHR 0xA8], [CHR 0xE2, CHR 0x80, CHR 0xA9],
      [CHR 0xE2, CHR 0x80, CHR 0xAF],
      [CHR 0xE2, CHR 0x81, CHR 0x9F],
      [CHR 0xE3, CHR 0x80, CHR 0x80],
      [CHR 0xEF, CHR 0xBB, CHR 0xBF]]"

function strip_leading :: "string list \<Rightarrow> string \<Rightarrow> string" where
  "strip_leading ws s =
     (case find (\<lambda>w. w \<noteq> [] \<and> take (length w) s = w) ws of
        None \<Rightarrow> s
      | Some w \<Rightarrow> strip_leading ws (drop (length w) s))"
  by pat_completeness auto
termination
proof (relation "measure (\<lambda>(ws, s). length s)")
  show "wf (measure (\<lambda>(ws, s). length s))"
    by simp
next
  fix ws :: "string list" and s w :: string
  assume "find (\<lambda>w. w \<noteq> [] \<and> take (length w) s = w) ws = Some w"
  then have w: "w \<noteq> []" "take (length w) s = w"
    by (auto simp: find_Some_iff)
  then have "s \<noteq> []" by auto
  with w(1) show "((ws, drop (length w) s), (ws, s)) \<in> measure (\<lambda>(ws, s). length s)"
    by simp
qed

declare strip_leading.simps [simp del]

definition trim :: "string \<Rightarrow> string" where
  "trim s = rev (strip_leading (map rev white_space) (rev (strip_leading white_space s)))"

text \<open>\<open>x || undefined\<close> on a string.\<close>

definition or_undefined :: "string \<Rightarrow> string option" where
  "or_undefined s = (if truthy s then Some s else None)"

text \<open>The fields of \<open>new Date()\<close> that \<open>formatDefaultScanName\<close> reads.\<close>

record date =
  getFullYear :: int
  getMonth :: nat
  getDate :: nat
  getHours :: nat
  getMinutes :: nat

text \<open>\<open>s.padStart(2, '0')\<close>.\<close>

definition padStart2 :: "string \<Rightarrow> string" where
  "padStart2 s = replicate (2 - length s) (CHR ''0'') @ s"

definition formatDefaultScanName :: "date \<Rightarrow> string \<Rightarrow> string" where
  "formatDefaultScanName now fileName =
     fileName @ ''-'' @ show_int (getFullYear now)
       @ ''-'' @ padStart2 (show_nat (getMonth now + 1))
       @ ''-'' @ padStart2 (show_nat (getDate now))
       @ ''-'' @ padStart2 (show_nat (getHours now)) @ padStart2 (show_nat (getMinutes now))"

text \<open>
  What \<open>submitScan\<close> does with the form: it sets an error message and returns, or it
  calls \<open>api.createScan\<close> with the files and the options.
\<close>

datatype submit_outcome = SetError string | CallCreateScan "File list" create_options

definition submitScan :: "date \<Rightarrow> form_state \<Rightarrow> submit_outcome" where
  "submitScan now st =
     (if length (files st) = 0 then SetError ''Select at least one file to scan.''
      else if scanType st = ''sentence_transformer'' \<and> \<not> truthy (trim (userPrincipalName st))
        then SetError ''User principal name is required for SentenceTransformer scans.''
      else if scanType st = ''sentence_transformer'' \<and> \<not> truthy_opt (exchangeToken st)
        then SetError ''Authenticate with Microsoft before running a SentenceTransformer scan.''
      else
        let effectiveScanName =
              (if truthy (trim (scanName st)) then trim (scanName st)
               else formatDefaultScanName now (name (files st ! 0)));
            effectiveSitCategory =
              (if sitCategory_s st = ''Custom'' then trim (customSitCategory st)
               else sitCategory_s st)
        in if \<not> truthy effectiveSitCategory
           then SetError ''Enter a custom SIT Category or select a predefined category.''
           else CallCreateScan (files st)
                  \<lparr> opt_name = effectiveScanName,
                    opt_scanType = scanType st,
                    opt_sitCategory = effectiveSitCategory,
                    opt_userPrincipalName = or_undefined (userPrincipalName st),
                    opt_exchangeAccessToken =
                      (case exchangeToken st of None \<Rightarrow> None | Some t \<Rightarrow> or_undefined t),
                    opt_exchangeOrganization = or_undefined (exchangeOrganization st),
                    opt_preserveCase = preserveCase st,
                    opt_forceOcr = (if scanType st = ''classic_nlp'' then forceOcr st else False) \<rparr>)"

text \<open>
  The effect with dependencies \<open>[scanType, forceOcr]\<close>, and the two setters followed by
  the effect that their state change triggers.
\<close>

definition forceOcr_effect :: "form_state \<Rightarrow> form_state" where
  "forceOcr_effect st =
     (if scanType st = ''sentence_transformer'' \<and> forceOcr st then st\<lparr> forceOcr := False \<rparr> else st)"

definition setScanType :: "string \<Rightarrow> form_state \<Rightarrow> form_state" where
  "setScanType t st = forceOcr_effect (st\<lparr> scanType := t \<rparr>)"

definition setForceOcr :: "bool \<Rightarrow> form_state \<Rightarrow> form_state" where
  "setForceOcr b st = forceOcr_effect (st\<lparr> forceOcr := b \<rparr>)"

section \<open>Notions used in the statements\<close>

text \<open>The candidates of a pool that share a map key, in pool order.\<close>

definition members :: "string \<Rightarrow> candidate list \<Rightarrow> candidate list" where
  "members k candidates = filter (\<lambda>c. candidate_key c = k) candidates"

text \<open>
  What one iteration of the loop does to the entry of the candidate's own key:
  \<open>new_group\<close> when the key is new, \<open>merge_group\<close> otherwise.
\<close>

definition group_step :: "string option \<Rightarrow> group option \<Rightarrow> candidate \<Rightarrow> group option" where
  "group_step scanSitCategory acc c =
     Some (case acc of None \<Rightarrow> new_group scanSitCategory c
           | Some existing \<Rightarrow> merge_group scanSitCategory existing c)"

definition acc_frequency :: "group option \<Rightarrow> nat" where
  "acc_frequency acc = (case acc of None \<Rightarrow> 0 | Some e \<Rightarrow> frequency_g e)"

text \<open>
  The label a group ends with, read off its members: the first truthy effective label
  (the member's own label, or the scan's when the member has none); without a truthy
  one, the effective label of the first member.
\<close>

definition group_label :: "string option \<Rightarrow> candidate list \<Rightarrow> string option" where
  "group_label scanSitCategory ms =
     (case find truthy_opt (map (effective_category scanSitCategory) ms) of
        Some l \<Rightarrow> l
      | None \<Rightarrow> (case ms of [] \<Rightarrow> None | c # _ \<Rightarrow> effective_category scanSitCategory c))"

text \<open>Name, byte length and time stamp of a file, as a triple.\<close>

definition file_identity :: "File \<Rightarrow> string \<times> nat \<times> int" where
  "file_identity f = (name f, size_bytes f, lastModified f)"

text \<open>A \<open>Map\<close> built by \<open>set_file\<close> only: its keys are distinct and each is the key of its file.\<close>

definition keyed :: "(string \<times> File) list \<Rightarrow> bool" where
  "keyed m = (distinct (map fst m) \<and> list_all (\<lambda>(k, f). k = fileKey f) m)"

section \<open>Example inputs\<close>

definition example_candidate ::
  "string \<Rightarrow> string \<Rightarrow> nat \<Rightarrow> real option \<Rightarrow> string option \<Rightarrow> candidate" where
  "example_candidate t v n s label =
     \<lparr> candidate_id = ''id'', candidate_type = t, value_c = v, frequency = n, score = s,
       metadata = Some \<lparr> file_name = None, sit_category = label,
                         extraction_module = None, ocr_performed = None \<rparr> \<rparr>"

definition example_file :: "string \<Rightarrow> nat \<Rightarrow> int \<Rightarrow> string \<Rightarrow> File" where
  "example_file n sz t bytes =
     \<lparr> name = n, size_bytes = sz, lastModified = t, type_f = ''text/plain'', content = bytes \<rparr>"

definition example_form :: "string \<Rightarrow> bool \<Rightarrow> string \<Rightarrow> string option \<Rightarrow> File list \<Rightarrow> form_state" where
  "example_form t ocr upn token fs =
     \<lparr> files = fs, scanName = ''Q1'', sitCategory_s = ''Healthcare'', customSitCategory = [],
       preserveCase = False, forceOcr = ocr, scanType = t, userPrincipalName = upn,
       exchangeToken = token, exchangeOrganization = [] \<rparr>"

definition example_date :: date where
  "example_date = \<lparr> getFullYear = 2024, getMonth = 0, getDate = 5, getHours = 9, getMinutes = 30 \<rparr>"

section \<open>Properties of the aggregation\<close>

subsection \<open>The map after the loop, key by key\<close>

lemma group_step_None: "group_step sc None c = Some (new_group sc c)"
  by (simp add: group_step_def)

lemma group_step_Some: "group_step sc (Some e) c = Some (merge_group sc e c)"
  by (simp add: group_step_def)

lemma map_of_absorb:
  "map_of (absorb sc al c) k =
     (if candidate_key c = k then group_step sc (map_of al k) c else map_of al k)"
  by (simp add: absorb_def group_step_def update_conv' split: option.split)

lemma map_of_foldl_absorb:
  "map_of (foldl (absorb sc) al cs) k = foldl (group_step sc) (map_of al k) (members k cs)"
  by (induction cs arbitrary: al) (simp_all add: members_def map_of_absorb)

lemma map_of_grouped_map:
  "map_of (grouped_map sc cs) k = foldl (group_step sc) None (members k cs)"
  by (simp add: grouped_map_def map_of_foldl_absorb)

lemma distinct_absorb:
  "distinct (map fst al) \<Longrightarrow> distinct (map fst (absorb sc al c))"
  by (simp add: absorb_def distinct_update split: option.split)

lemma distinct_foldl_absorb:
  "distinct (map fst al) \<Longrightarrow> distinct (map fst (foldl (absorb sc) al cs))"
  by (induction cs arbitrary: al) (simp_all add: distinct_absorb)

lemma distinct_grouped_map: "distinct (map fst (grouped_map sc cs))"
  by (simp add: grouped_map_def distinct_foldl_absorb)

lemma set_insort_cmp: "set (insort_cmp cmp x xs) = insert x (set xs)"
  by (induction xs) auto

lemma set_sort_cmp: "set (sort_cmp cmp xs) = set xs"
  unfolding sort_cmp_def by (induction xs) (simp_all add: set_insort_cmp)

lemma length_insort_cmp: "length (insort_cmp cmp x xs) = Suc (length xs)"
  by (induction xs) auto

lemma length_sort_cmp: "length (sort_cmp cmp xs) = length xs"
  unfolding sort_cmp_def by (induction xs) (simp_all add: length_insort_cmp)

lemma sorted_insort_desc:
  "sorted_wrt (\<lambda>a b. by_score_desc a b \<le> 0) xs \<Longrightarrow>
   sorted_wrt (\<lambda>a b. by_score_desc a b \<le> 0) (insort_cmp by_score_desc x xs)"
  by (induction xs) (auto simp: set_insort_cmp by_score_desc_def)

lemma sorted_sort_desc:
  "sorted_wrt (\<lambda>a b. by_score_desc a b \<le> 0) (sort_cmp by_score_desc xs)"
  unfolding sort_cmp_def by (induction xs) (simp_all add: sorted_insort_desc)

lemma in_groupedCandidates:
  "g \<in> set (groupedCandidates sc cs) \<longleftrightarrow>
     (\<exists>k. foldl (group_step sc) None (members k cs) = Some g)"
proof -
  have "g \<in> set (groupedCandidates sc cs) \<longleftrightarrow> (\<exists>k. (k, g) \<in> set (grouped_map sc cs))"
    by (force simp: groupedCandidates_def set_sort_cmp)
  also have "\<dots> \<longleftrightarrow> (\<exists>k. map_of (grouped_map sc cs) k = Some g)"
    using distinct_grouped_map [of sc cs] by (auto dest: map_of_SomeD)
  finally show ?thesis by (simp add: map_of_grouped_map)
qed

lemma key_new_group: "key (new_group sc c) = candidate_key c"
  by (simp add: new_group_def)

lemma key_merge_group: "key (merge_group sc e c) = key e"
  by (simp add: merge_group_def)

lemma key_group_step:
  "candidate_key c = k \<Longrightarrow> (\<forall>e. acc = Some e \<longrightarrow> key e = k) \<Longrightarrow>
   group_step sc acc c = Some g \<Longrightarrow> key g = k"
  by (cases acc) (auto simp: group_step_def key_new_group key_merge_group)

lemma key_foldl_group_step:
  "\<forall>c \<in> set ms. candidate_key c = k \<Longrightarrow> (\<forall>e. acc = Some e \<longrightarrow> key e = k) \<Longrightarrow>
   foldl (group_step sc) acc ms = Some g \<Longrightarrow> key g = k"
proof (induction ms arbitrary: acc)
  case Nil
  then show ?case by simp
next
  case (Cons c ms)
  obtain e where e: "group_step sc acc c = Some e" by (simp add: group_step_def)
  with Cons.prems have "key e = k" by (auto intro: key_group_step)
  with Cons.prems e Cons.IH [of "Some e"] show ?case by simp
qed

lemma group_key:
  assumes "foldl (group_step sc) None (members k cs) = Some g"
  shows "key g = k"
  using key_foldl_group_step [of "members k cs" k None sc g] assms
  by (simp add: members_def)

lemma frequency_new_group: "frequency_g (new_group sc c) = frequency c"
  by (simp add: new_group_def)

lemma frequency_merge_group: "frequency_g (merge_group sc e c) = frequency_g e + frequency c"
  by (simp add: merge_group_def)

lemma frequency_group_step:
  "acc_frequency (group_step sc acc c) = acc_frequency acc + frequency c"
  by (cases acc) (simp_all add: acc_frequency_def group_step_def frequency_new_group frequency_merge_group)

lemma frequency_foldl:
  "acc_frequency (foldl (group_step sc) acc ms) = acc_frequency acc + sum_list (map frequency ms)"
  by (induction ms arbitrary: acc) (simp_all add: frequency_group_step)

lemma score_new_group: "score_g (new_group sc c) = score c"
  by (simp add: new_group_def)

lemma score_merge_group:
  "score_or (score_g (merge_group sc e c)) = max (score_or (score_g e)) (score_or (score c))"
  by (simp add: merge_group_def max_def)

lemma score_foldl_Some:
  "\<exists>g. foldl (group_step sc) (Some e) ms = Some g \<and>
       score_or (score_g g) = Max (insert (score_or (score_g e)) ((\<lambda>c. score_or (score c)) ` set ms))"
proof (induction ms arbitrary: e)
  case Nil
  then show ?case by simp
next
  case (Cons c ms)
  let ?e' = "merge_group sc e c"
  have s: "score_or (score_g ?e') = max (score_or (score_g e)) (score_or (score c))"
    by (rule score_merge_group)
  from Cons.IH [of ?e'] obtain g where
    g: "foldl (group_step sc) (Some ?e') ms = Some g"
       "score_or (score_g g) = Max (insert (score_or (score_g ?e')) ((\<lambda>c. score_or (score c)) ` set ms))"
    by blast
  have "Max (insert (score_or (score_g ?e')) ((\<lambda>c. score_or (score c)) ` set ms))
      = Max (insert (score_or (score_g e)) ((\<lambda>c. score_or (score c)) ` set (c # ms)))"
    unfolding s by (cases "ms = []") (simp_all add: max.assoc max.commute max.left_commute)
  with g show ?case by (simp add: group_step_Some)
qed

lemma score_foldl_None:
  assumes "ms \<noteq> []"
  shows "\<exists>g. foldl (group_step sc) None ms = Some g \<and>
       score_or (score_g g) = Max ((\<lambda>c. score_or (score c)) ` set ms)"
proof -
  from assms obtain c cs where ms: "ms = c # cs" by (cases ms) auto
  note ms
  with score_new_group [of sc c] score_foldl_Some [of sc "new_group sc c" cs] show ?thesis
    by (auto simp: ms group_step_None)
qed

lemma foldl_group_step_None_iff:
  "foldl (group_step sc) None ms = None \<longleftrightarrow> ms = []"
proof (cases ms)
  case (Cons c cs)
  with score_foldl_Some [of sc "new_group sc c" cs] show ?thesis
    by (auto simp: group_step_None)
qed simp

lemma sitCategory_new_group: "sitCategory (new_group sc c) = effective_category sc c"
  by (simp add: new_group_def)

lemma sitCategory_merge_group:
  "sitCategory (merge_group sc e c) =
     (if \<not> truthy_opt (sitCategory e) \<and> truthy_opt (effective_category sc c)
      then effective_category sc c else sitCategory e)"
  by (simp add: merge_group_def)

lemma sitCategory_foldl_Some:
  "foldl (group_step sc) (Some e) ms = Some g \<Longrightarrow>
   sitCategory g =
     (if truthy_opt (sitCategory e) then sitCategory e
      else case find truthy_opt (map (effective_category sc) ms) of
             Some l \<Rightarrow> l | None \<Rightarrow> sitCategory e)"
proof (induction ms arbitrary: e)
  case Nil
  then show ?case by simp
next
  case (Cons c ms)
  from Cons.prems have "foldl (group_step sc) (Some (merge_group sc e c)) ms = Some g"
    by (simp add: group_step_Some)
  from Cons.IH [OF this] show ?case
    by (simp add: sitCategory_merge_group split: option.split)
qed

lemma sitCategory_foldl_None:
  assumes "foldl (group_step sc) None ms = Some g"
  shows "sitCategory g = group_label sc ms"
proof (cases ms)
  case Nil
  with assms show ?thesis by simp
next
  case (Cons c cs)
  with assms have "foldl (group_step sc) (Some (new_group sc c)) cs = Some g"
    by (simp add: group_step_None)
  from sitCategory_foldl_Some [OF this] show ?thesis
    by (simp add: Cons group_label_def sitCategory_new_group split: option.split)
qed

lemma sum_list_frequency_mono:
  assumes "mset xs \<subseteq># mset ys"
  shows "sum_list (map frequency xs) \<le> sum_list (map frequency ys)"
proof -
  from assms obtain D where D: "mset ys = mset xs + D"
    by (auto simp: mset_subset_eq_exists_conv)
  have "sum_list (map frequency ys) = sum_mset (image_mset frequency (mset ys))"
    by (metis mset_map sum_mset_sum_list)
  also have "\<dots> = sum_mset (image_mset frequency (mset xs)) + sum_mset (image_mset frequency D)"
    by (simp add: D)
  also have "sum_mset (image_mset frequency (mset xs)) = sum_list (map frequency xs)"
    by (metis mset_map sum_mset_sum_list)
  finally show ?thesis by simp
qed

lemma members_mono:
  "mset A \<subseteq># mset B \<Longrightarrow> mset (members k A) \<subseteq># mset (members k B)"
  by (simp add: members_def multiset_filter_mono)

lemma group_label_no_own_label:
  "ms \<noteq> [] \<Longrightarrow> \<forall>c \<in> set ms. meta sit_category c = None \<Longrightarrow> group_label sc ms = sc"
proof -
  assume ne: "ms \<noteq> []" and none: "\<forall>c \<in> set ms. meta sit_category c = None"
  from none have eff: "map (effective_category sc) ms = replicate (length ms) sc"
    by (induction ms) (simp_all add: effective_category_def)
  from ne obtain c cs where ms: "ms = c # cs" by (cases ms) auto
  with none have c: "effective_category sc c = sc" by (simp add: effective_category_def)
  have "find truthy_opt (replicate n sc) = (if truthy_opt sc \<and> 0 < n then Some sc else None)" for n
    by (induction n) simp_all
  with eff c ms show ?thesis by (simp add: group_label_def)
qed

subsection \<open>One group for each key\<close>

lemma mset_insort_cmp: "mset (insort_cmp cmp x xs) = add_mset x (mset xs)"
  by (induction xs) auto

lemma mset_sort_cmp: "mset (sort_cmp cmp xs) = mset xs"
  unfolding sort_cmp_def by (induction xs) (simp_all add: mset_insort_cmp)

lemma grouped_map_key:
  assumes "(k, g) \<in> set (grouped_map sc cs)"
  shows "key g = k"
proof -
  from assms distinct_grouped_map [of sc cs] have "map_of (grouped_map sc cs) k = Some g"
    by simp
  then show ?thesis by (simp add: map_of_grouped_map group_key)
qed

lemma filter_key_unique:
  "distinct (map fst al) \<Longrightarrow> \<forall>(k', g') \<in> set al. key g' = k' \<Longrightarrow> map_of al k = Some g \<Longrightarrow>
   filter (\<lambda>g'. key g' = k) (map snd al) = [g]"
proof (induction al)
  case Nil
  then show ?case by simp
next
  case (Cons p al)
  show ?case
  proof (cases "fst p = k")
    case True
    with Cons.prems have "snd p = g" "key g = k" by auto
    moreover have "filter (\<lambda>g'. key g' = k) (map snd al) = []"
    proof -
      have "key g' \<noteq> k" if "g' \<in> snd ` set al" for g'
      proof -
        from that obtain k' where "(k', g') \<in> set al" by force
        with Cons.prems True have "key g' = k'" "k' \<noteq> k" by force+
        then show ?thesis by simp
      qed
      then show ?thesis by (auto simp: filter_empty_conv)
    qed
    ultimately show ?thesis by (cases p) simp
  next
    case False
    with Cons.prems have "key (snd p) \<noteq> k" by (cases p) auto
    with Cons False show ?thesis by (cases p) auto
  qed
qed

lemma group_for_key:
  assumes "foldl (group_step sc) None (members k cs) = Some g"
  shows "filter (\<lambda>g'. key g' = k) (groupedCandidates sc cs) = [g]"
proof -
  let ?al = "grouped_map sc cs"
  have "filter (\<lambda>g'. key g' = k) (map snd ?al) = [g]"
  proof (rule filter_key_unique)
    show "distinct (map fst ?al)" by (rule distinct_grouped_map)
    show "\<forall>(k', g') \<in> set ?al. key g' = k'" by (auto dest: grouped_map_key)
    show "map_of ?al k = Some g" using assms by (simp add: map_of_grouped_map)
  qed
  then have "mset (filter (\<lambda>g'. key g' = k) (map snd ?al)) = {#g#}"
    by (simp only: mset_single_iff)
  then have "filter_mset (\<lambda>g'. key g' = k) (mset (groupedCandidates sc cs)) = {#g#}"
    by (simp add: groupedCandidates_def mset_sort_cmp)
  then have "mset (filter (\<lambda>g'. key g' = k) (groupedCandidates sc cs)) = {#g#}"
    by simp
  then show ?thesis by (simp only: mset_single_iff)
qed

subsection \<open>The aggregated result\<close>

text \<open>
  C1. In a pool, let exactly two candidates have the type SSN and the value 123-45-6789:
  first one from a.txt with score 80 and OCR used, later one from b.txt with score 90
  and OCR not used, whatever their other fields and whatever the other candidates of
  the pool. Then the aggregation has exactly one group with the key of that type and
  value; its score is 90, its frequency the sum of the two frequencies, its files are
  a.txt and b.txt in this order, its OCR states are both values, and its OCR cell (of
  a scan whose OCR column applies) reads Mixed.
\<close>

theorem aggregate_ssn_scenario:
  assumes "members ''SSN::123-45-6789'' pool =
         [\<lparr> candidate_id = i1, candidate_type = ''SSN'', value_c = ''123-45-6789'',
            frequency = f1, score = Some 80,
            metadata = Some \<lparr> file_name = Some ''a.txt'', sit_category = cat1,
                              extraction_module = m1, ocr_performed = Some True \<rparr> \<rparr>,
          \<lparr> candidate_id = i2, candidate_type = ''SSN'', value_c = ''123-45-6789'',
            frequency = f2, score = Some 90,
            metadata = Some \<lparr> file_name = Some ''b.txt'', sit_category = cat2,
                              extraction_module = m2, ocr_performed = Some False \<rparr> \<rparr>]"
  shows "\<exists>g. filter (\<lambda>g'. key g' = ''SSN::123-45-6789'') (groupedCandidates scanSitCategory pool) = [g]
     \<and> score_g g = Some 90
     \<and> frequency_g g = f1 + f2
     \<and> fileNames g = [''a.txt'', ''b.txt'']
     \<and> ocrStates g = [True, False]
     \<and> ocr_cell False g = ''Mixed''"
proof -
  let ?a = "\<lparr> candidate_id = i1, candidate_type = ''SSN'', value_c = ''123-45-6789'',
            frequency = f1, score = Some 80,
            metadata = Some \<lparr> file_name = Some ''a.txt'', sit_category = cat1,
                              extraction_module = m1, ocr_performed = Some True \<rparr> \<rparr>"
  let ?b = "\<lparr> candidate_id = i2, candidate_type = ''SSN'', value_c = ''123-45-6789'',
            frequency = f2, score = Some 90,
            metadata = Some \<lparr> file_name = Some ''b.txt'', sit_category = cat2,
                              extraction_module = m2, ocr_performed = Some False \<rparr> \<rparr>"
  let ?g = "merge_group scanSitCategory (new_group scanSitCategory ?a) ?b"
  from assms
  have "foldl (group_step scanSitCategory) None (members ''SSN::123-45-6789'' pool) = Some ?g"
    by (simp add: group_step_None group_step_Some)
  then have one: "filter (\<lambda>g'. key g' = ''SSN::123-45-6789'')
      (groupedCandidates scanSitCategory pool) = [?g]"
    by (rule group_for_key)
  have "score_g ?g = Some 90"
    by (simp add: merge_group_def new_group_def score_or_def)
  moreover have "frequency_g ?g = f1 + f2"
    by (simp add: merge_group_def new_group_def)
  moreover have "fileNames ?g = [''a.txt'', ''b.txt'']"
    by (simp add: merge_group_def new_group_def meta_def truthy_def)
  moreover have states: "ocrStates ?g = [True, False]"
    by (simp add: merge_group_def new_group_def meta_def)
  moreover have "ocr_cell False ?g = ''Mixed''"
    by (simp add: ocr_cell_def states)
  ultimately show ?thesis using one by blast
qed

theorem aggregate_ssn_scenario_witness:
  "\<exists>g. filter (\<lambda>g'. key g' = ''SSN::123-45-6789'') (groupedCandidates None
         [\<lparr> candidate_id = ''1'', candidate_type = ''SSN'', value_c = ''123-45-6789'',
            frequency = 2, score = Some 80,
            metadata = Some \<lparr> file_name = Some ''a.txt'', sit_category = None,
                              extraction_module = None, ocr_performed = Some True \<rparr> \<rparr>,
          example_candidate ''EMAIL'' ''x@example.com'' 1 (Some 95) None,
          \<lparr> candidate_id = ''2'', candidate_type = ''SSN'', value_c = ''123-45-6789'',
            frequency = 3, score = Some 90,
            metadata = Some \<lparr> file_name = Some ''b.txt'', sit_category = None,
                              extraction_module = None, ocr_performed = Some False \<rparr> \<rparr>]) = [g]
     \<and> score_g g = Some 90
     \<and> frequency_g g = 5
     \<and> fileNames g = [''a.txt'', ''b.txt'']
     \<and> ocrStates g = [True, False]
     \<and> ocr_cell False g = ''Mixed''"
proof -
  let ?a = "\<lparr> candidate_id = ''1'', candidate_type = ''SSN'', value_c = ''123-45-6789'',
            frequency = 2, score = Some 80,
            metadata = Some \<lparr> file_name = Some ''a.txt'', sit_category = None,
                              extraction_module = None, ocr_performed = Some True \<rparr> \<rparr>"
  let ?b = "\<lparr> candidate_id = ''2'', candidate_type = ''SSN'', value_c = ''123-45-6789'',
            frequency = 3, score = Some 90,
            metadata = Some \<lparr> file_name = Some ''b.txt'', sit_category = None,
                              extraction_module = None, ocr_performed = Some False \<rparr> \<rparr>"
  let ?other = "example_candidate ''EMAIL'' ''x@example.com'' 1 (Some 95) None"
  have m: "members ''SSN::123-45-6789'' [?a, ?other, ?b] = [?a, ?b]"
    by (simp add: members_def candidate_key_def example_candidate_def)
  from aggregate_ssn_scenario [OF m, of None] show ?thesis
    by simp
qed

text \<open>
  C2, as the code has it. The output is in descending order of score where a missing
  score counts as -1 (the comparator's \<open>?? -1\<close>). So a group without a score comes
  after every group whose score is greater than -1; it is not placed after a group
  whose score is -1 or less.
\<close>

theorem sorted_missing_as_minus_one:
  "sorted_wrt (\<lambda>a b. score_or (score_g b) \<le> score_or (score_g a))
     (groupedCandidates scanSitCategory candidates)
   \<and> (\<forall>i j s. i < length (groupedCandidates scanSitCategory candidates)
        \<and> j < length (groupedCandidates scanSitCategory candidates)
        \<and> score_g (groupedCandidates scanSitCategory candidates ! i) = None
        \<and> score_g (groupedCandidates scanSitCategory candidates ! j) = Some s
        \<and> - 1 < s
        \<longrightarrow> j < i)"
proof -
  let ?out = "groupedCandidates scanSitCategory candidates"
  let ?ge = "\<lambda>a b. score_or (score_g b) \<le> score_or (score_g a)"
  have sorted: "sorted_wrt ?ge ?out"
    using sorted_sort_desc [of "map snd (grouped_map scanSitCategory candidates)"]
    by (simp add: groupedCandidates_def by_score_desc_def)
  have "j < i" if i: "i < length ?out" and j: "j < length ?out"
    and none: "score_g (?out ! i) = None" and some: "score_g (?out ! j) = Some s"
    and s: "- 1 < s" for i j s
  proof (rule ccontr)
    assume "\<not> j < i"
    moreover from none some have "i \<noteq> j" by auto
    ultimately have "i < j" by simp
    with sorted j have "score_or (score_g (?out ! j)) \<le> score_or (score_g (?out ! i))"
      by (simp add: sorted_wrt_iff_nth_less)
    with none some s show False by (simp add: score_or_def)
  qed
  with sorted show ?thesis by blast
qed

theorem sorted_missing_as_minus_one_witness:
  "score_g (groupedCandidates None
       [example_candidate ''A'' ''x'' 1 None None,
        example_candidate ''B'' ''y'' 1 (Some 50) None] ! 1) = None
   \<and> score_g (groupedCandidates None
       [example_candidate ''A'' ''x'' 1 None None,
        example_candidate ''B'' ''y'' 1 (Some 50) None] ! 0) = Some 50
   \<and> (0::nat) < 1"
  using sorted_missing_as_minus_one [of None
       "[example_candidate ''A'' ''x'' 1 None None,
         example_candidate ''B'' ''y'' 1 (Some 50) None]"]
  by (simp add: groupedCandidates_def grouped_map_def absorb_def candidate_key_def new_group_def
      merge_group_def meta_def truthy_def score_or_def sort_cmp_def example_candidate_def
      by_score_desc_def effective_category_def)

text \<open>
  C2 as stated fails. A group without a score is put before a group with the score -5,
  and keeps its place before a group with the score -1, with which it compares equal.
\<close>

theorem missing_score_not_last:
  "map score_g (groupedCandidates None
       [example_candidate ''A'' ''x'' 1 None None,
        example_candidate ''B'' ''y'' 1 (Some (- 5)) None]) = [None, Some (- 5)]
   \<and> map score_g (groupedCandidates None
       [example_candidate ''B'' ''y'' 1 (Some (- 5)) None,
        example_candidate ''A'' ''x'' 1 None None]) = [None, Some (- 5)]
   \<and> map score_g (groupedCandidates None
       [example_candidate ''A'' ''x'' 1 None None,
        example_candidate ''B'' ''y'' 1 (Some (- 1)) None]) = [None, Some (- 1)]"
  by (simp add: groupedCandidates_def grouped_map_def absorb_def candidate_key_def new_group_def
      merge_group_def meta_def truthy_def score_or_def sort_cmp_def example_candidate_def
      by_score_desc_def effective_category_def)

text \<open>
  C3, as the code has it. The scan-level category stands in for the label of each
  member that has none, member by member, before the group is looked at. The label of
  a group is the first truthy one among these effective labels of its members, in pool
  order (or, without a truthy one, the effective label of its first member). So the
  scan-level category is the group's label when no member has a label of its own; and
  a scan-level category that is not empty is the group's label also when the first
  member has no label of its own, whatever labels later members have.
\<close>

theorem category_label_first_effective:
  assumes "g \<in> set (groupedCandidates scanSitCategory candidates)"
  shows "sitCategory g = group_label scanSitCategory (members (key g) candidates)
       \<and> ((\<forall>c \<in> set (members (key g) candidates). meta sit_category c = None)
            \<longrightarrow> sitCategory g = scanSitCategory)
       \<and> (truthy_opt scanSitCategory
            \<and> (\<exists>c cs. members (key g) candidates = c # cs \<and> meta sit_category c = None)
            \<longrightarrow> sitCategory g = scanSitCategory)"
proof -
  from assms obtain k where
    k: "foldl (group_step scanSitCategory) None (members k candidates) = Some g"
    by (auto simp: in_groupedCandidates)
  then have key: "key g = k" by (rule group_key)
  from k have ne: "members k candidates \<noteq> []" by auto
  from k key have label: "sitCategory g = group_label scanSitCategory (members (key g) candidates)"
    by (simp add: sitCategory_foldl_None)
  have first: "sitCategory g = scanSitCategory"
    if "truthy_opt scanSitCategory" "members (key g) candidates = c # cs"
      "meta sit_category c = None" for c cs
    using that label by (simp add: group_label_def effective_category_def)
  have none: "sitCategory g = scanSitCategory"
    if "\<forall>c \<in> set (members (key g) candidates). meta sit_category c = None"
    using that label ne key group_label_no_own_label [of "members k candidates" scanSitCategory]
    by simp
  show ?thesis
  proof (intro conjI impI)
    show "sitCategory g = group_label scanSitCategory (members (key g) candidates)"
      by (rule label)
  next
    assume "\<forall>c \<in> set (members (key g) candidates). meta sit_category c = None"
    then show "sitCategory g = scanSitCategory" by (rule none)
  next
    assume "truthy_opt scanSitCategory
      \<and> (\<exists>c cs. members (key g) candidates = c # cs \<and> meta sit_category c = None)"
    then obtain c cs where "truthy_opt scanSitCategory"
      "members (key g) candidates = c # cs" "meta sit_category c = None" by blast
    then show "sitCategory g = scanSitCategory" by (rule first)
  qed
qed

theorem category_label_first_effective_witness:
  "new_group (Some ''Financial Services'') (example_candidate ''SSN'' ''1'' 1 None None)
     \<lparr> frequency_g := 2 \<rparr>
     \<in> set (groupedCandidates (Some ''Financial Services'')
         [example_candidate ''SSN'' ''1'' 1 None None,
          example_candidate ''SSN'' ''1'' 1 None (Some ''Healthcare'')])
   \<and> members ''SSN::1''
         [example_candidate ''SSN'' ''1'' 1 None None,
          example_candidate ''SSN'' ''1'' 1 None (Some ''Healthcare'')]
       = [example_candidate ''SSN'' ''1'' 1 None None,
          example_candidate ''SSN'' ''1'' 1 None (Some ''Healthcare'')]
   \<and> sitCategory (new_group (Some ''Financial Services'') (example_candidate ''SSN'' ''1'' 1 None None)
        \<lparr> frequency_g := 2 \<rparr>) = Some ''Financial Services''
   \<and> new_group None (example_candidate ''SSN'' ''1'' 1 None None) \<lparr> frequency_g := 2 \<rparr>
     \<in> set (groupedCandidates None
         [example_candidate ''SSN'' ''1'' 1 None None,
          example_candidate ''SSN'' ''1'' 1 None None])
   \<and> sitCategory (new_group None (example_candidate ''SSN'' ''1'' 1 None None)
        \<lparr> frequency_g := 2 \<rparr>) = None"
proof -
  let ?c = "example_candidate ''SSN'' ''1'' 1 None None"
  let ?h = "example_candidate ''SSN'' ''1'' 1 None (Some ''Healthcare'')"
  let ?g = "new_group (Some ''Financial Services'') ?c \<lparr> frequency_g := 2 \<rparr>"
  let ?n = "new_group None ?c \<lparr> frequency_g := 2 \<rparr>"
  have h: "?g \<in> set (groupedCandidates (Some ''Financial Services'') [?c, ?h])"
    by (simp add: groupedCandidates_def grouped_map_def absorb_def candidate_key_def new_group_def
      merge_group_def meta_def truthy_def truthy_opt_def score_or_def sort_cmp_def
      example_candidate_def effective_category_def)
  have kg: "key ?g = ''SSN::1''"
    by (simp add: new_group_def candidate_key_def example_candidate_def)
  have m: "members ''SSN::1'' [?c, ?h] = [?c, ?h]"
    by (simp add: members_def candidate_key_def example_candidate_def)
  have unlabelled: "meta sit_category ?c = None"
    by (simp add: meta_def example_candidate_def)
  have t: "truthy_opt (Some ''Financial Services'')"
    by (simp add: truthy_opt_def truthy_def)
  from m kg unlabelled
  have ex: "\<exists>c cs. members (key ?g) [?c, ?h] = c # cs \<and> meta sit_category c = None"
    by simp
  from category_label_first_effective [OF h, THEN conjunct2, THEN conjunct2] t ex
  have 1: "sitCategory ?g = Some ''Financial Services''"
    by blast
  have hn: "?n \<in> set (groupedCandidates None [?c, ?c])"
    by (simp add: groupedCandidates_def grouped_map_def absorb_def candidate_key_def new_group_def
      merge_group_def meta_def truthy_def truthy_opt_def score_or_def sort_cmp_def
      example_candidate_def effective_category_def)
  have all: "\<forall>c \<in> set (members (key ?n) [?c, ?c]). meta sit_category c = None"
    by (simp add: members_def meta_def example_candidate_def)
  from category_label_first_effective [OF hn, THEN conjunct2, THEN conjunct1] all
  have 2: "sitCategory ?n = None"
    by blast
  from h m 1 hn 2 show ?thesis by (intro conjI)
qed

text \<open>
  C3 as stated fails. With the scan-level category Financial Services, a first member
  without a label and a second member labelled Healthcare, the group is labelled
  Financial Services: the first non-null label of a member is not taken, and the
  scan-level category is used although a member carries its own label.
\<close>

theorem category_default_overrides_member_label:
  "map sitCategory (groupedCandidates (Some ''Financial Services'')
       [example_candidate ''SSN'' ''1'' 1 (Some 80) None,
        example_candidate ''SSN'' ''1'' 1 (Some 90) (Some ''Healthcare'')])
     = [Some ''Financial Services'']
   \<and> map (meta sit_category)
       [example_candidate ''SSN'' ''1'' 1 (Some 80) None,
        example_candidate ''SSN'' ''1'' 1 (Some 90) (Some ''Healthcare'')]
     = [None, Some ''Healthcare'']"
  by (simp add: groupedCandidates_def grouped_map_def absorb_def candidate_key_def new_group_def
      merge_group_def meta_def truthy_def truthy_opt_def score_or_def sort_cmp_def
      example_candidate_def effective_category_def)

text \<open>
  C4, as the code has it. Let the pool \<open>B\<close> contain the pool \<open>A\<close> (every candidate of
  \<open>A\<close> occurs in \<open>B\<close> at least as often, in any order), and let a group of the
  aggregation of \<open>A\<close> and a group of the aggregation of \<open>B\<close> have the same key. Then
  the score of \<open>B\<close>'s group is not lower than the score of \<open>A\<close>'s group when a missing
  score counts as -1, which is how the code compares scores; so a score of \<open>A\<close>'s
  group that is present and not negative is matched by a score of \<open>B\<close>'s group that
  is present and at least as high. The occurrence count of \<open>B\<close>'s group is not lower
  than that of \<open>A\<close>'s group.
\<close>

theorem superset_monotone:
  assumes sub: "mset A \<subseteq># mset B"
    and ga: "ga \<in> set (groupedCandidates scanSitCategory A)"
    and gb: "gb \<in> set (groupedCandidates scanSitCategory B)"
    and same: "key ga = key gb"
  shows "score_or (score_g ga) \<le> score_or (score_g gb)
       \<and> (\<forall>s. score_g ga = Some s \<and> 0 \<le> s \<longrightarrow> (\<exists>s'. score_g gb = Some s' \<and> s \<le> s'))
       \<and> frequency_g ga \<le> frequency_g gb"
proof -
  let ?step = "group_step scanSitCategory"
  from ga obtain k where a: "foldl ?step None (members k A) = Some ga"
    by (auto simp: in_groupedCandidates)
  from gb obtain k' where b: "foldl ?step None (members k' B) = Some gb"
    by (auto simp: in_groupedCandidates)
  from group_key [OF a] group_key [OF b] same have "k' = k" by simp
  with b have b: "foldl ?step None (members k B) = Some gb" by simp
  have mem: "mset (members k A) \<subseteq># mset (members k B)"
    using sub by (rule members_mono)
  from a have ne: "members k A \<noteq> []" by auto
  with mem have ne': "members k B \<noteq> []" by auto
  have "frequency_g ga = sum_list (map frequency (members k A))"
    using frequency_foldl [of scanSitCategory None "members k A"] a
    by (simp add: acc_frequency_def)
  moreover have "frequency_g gb = sum_list (map frequency (members k B))"
    using frequency_foldl [of scanSitCategory None "members k B"] b
    by (simp add: acc_frequency_def)
  ultimately have f: "frequency_g ga \<le> frequency_g gb"
    using sum_list_frequency_mono [OF mem] by simp
  let ?s = "\<lambda>c. score_or (score c)"
  have sa: "score_or (score_g ga) = Max (?s ` set (members k A))"
    using score_foldl_None [OF ne, of scanSitCategory] a by auto
  have sb: "score_or (score_g gb) = Max (?s ` set (members k B))"
    using score_foldl_None [OF ne', of scanSitCategory] b by auto
  have "set (members k A) \<subseteq> set (members k B)"
    using set_mset_mono [OF mem] by simp
  then have "Max (?s ` set (members k A)) \<le> Max (?s ` set (members k B))"
    using ne by (intro Max_mono) auto
  with sa sb have le: "score_or (score_g ga) \<le> score_or (score_g gb)" by simp
  have "\<exists>s'. score_g gb = Some s' \<and> s \<le> s'" if "score_g ga = Some s" "0 \<le> s" for s
    using le that by (cases "score_g gb") (simp_all add: score_or_def)
  with le f show ?thesis by blast
qed

theorem superset_monotone_witness:
  "mset [example_candidate ''SSN'' ''1'' 2 (Some 80) None]
     \<subseteq># mset [example_candidate ''SSN'' ''1'' 3 (Some 90) None,
               example_candidate ''SSN'' ''1'' 2 (Some 80) None]
   \<and> groupedCandidates None [example_candidate ''SSN'' ''1'' 2 (Some 80) None]
       = [new_group None (example_candidate ''SSN'' ''1'' 2 (Some 80) None)]
   \<and> groupedCandidates None
         [example_candidate ''SSN'' ''1'' 3 (Some 90) None,
          example_candidate ''SSN'' ''1'' 2 (Some 80) None]
       = [new_group None (example_candidate ''SSN'' ''1'' 3 (Some 90) None) \<lparr> frequency_g := 5 \<rparr>]
   \<and> score_or (score_g (new_group None (example_candidate ''SSN'' ''1'' 2 (Some 80) None)))
       \<le> score_or (score_g (new_group None (example_candidate ''SSN'' ''1'' 3 (Some 90) None)
              \<lparr> frequency_g := 5 \<rparr>))
   \<and> score_g (new_group None (example_candidate ''SSN'' ''1'' 2 (Some 80) None)) = Some 80
   \<and> (\<exists>s'. score_g (new_group None (example_candidate ''SSN'' ''1'' 3 (Some 90) None)
              \<lparr> frequency_g := 5 \<rparr>) = Some s' \<and> 80 \<le> s')
   \<and> frequency_g (new_group None (example_candidate ''SSN'' ''1'' 2 (Some 80) None))
       \<le> frequency_g (new_group None (example_candidate ''SSN'' ''1'' 3 (Some 90) None)
              \<lparr> frequency_g := 5 \<rparr>)"
proof -
  let ?x = "example_candidate ''SSN'' ''1'' 2 (Some 80) None"
  let ?y = "example_candidate ''SSN'' ''1'' 3 (Some 90) None"
  let ?ga = "new_group None ?x"
  let ?gb = "new_group None ?y \<lparr> frequency_g := 5 \<rparr>"
  have sub: "mset [?x] \<subseteq># mset [?y, ?x]" by simp
  have a: "groupedCandidates None [?x] = [?ga]"
    by (simp add: groupedCandidates_def grouped_map_def absorb_def sort_cmp_def)
  have b: "groupedCandidates None [?y, ?x] = [?gb]"
    by (simp add: groupedCandidates_def grouped_map_def absorb_def candidate_key_def new_group_def
      merge_group_def meta_def truthy_def truthy_opt_def score_or_def sort_cmp_def
      example_candidate_def effective_category_def)
  have ga: "?ga \<in> set (groupedCandidates None [?x])" by (simp add: a)
  have gb: "?gb \<in> set (groupedCandidates None [?y, ?x])" by (simp add: b)
  have same: "key ?ga = key ?gb"
    by (simp add: new_group_def candidate_key_def example_candidate_def)
  have sc: "score_g ?ga = Some 80"
    by (simp add: new_group_def example_candidate_def)
  from superset_monotone [OF sub ga gb same] sc
  have "score_or (score_g ?ga) \<le> score_or (score_g ?gb)"
    and "\<exists>s'. score_g ?gb = Some s' \<and> 80 \<le> s'"
    and "frequency_g ?ga \<le> frequency_g ?gb"
    by simp_all
  with sub a b sc show ?thesis by (intro conjI)
qed

text \<open>
  C4 as stated fails for the score when a missing score ranks below every score that
  is present. A group with the score -5 loses it when a candidate of the same key
  without a score is added to the pool: the larger pool's group has no score.
\<close>

theorem superset_replaces_score_by_missing:
  "mset [example_candidate ''SSN'' ''1'' 1 (Some (- 5)) None]
     \<subseteq># mset [example_candidate ''SSN'' ''1'' 1 (Some (- 5)) None,
               example_candidate ''SSN'' ''1'' 1 None None]
   \<and> map key (groupedCandidates None [example_candidate ''SSN'' ''1'' 1 (Some (- 5)) None])
       = [''SSN::1'']
   \<and> map key (groupedCandidates None
         [example_candidate ''SSN'' ''1'' 1 (Some (- 5)) None,
          example_candidate ''SSN'' ''1'' 1 None None])
       = [''SSN::1'']
   \<and> map score_g (groupedCandidates None [example_candidate ''SSN'' ''1'' 1 (Some (- 5)) None])
       = [Some (- 5)]
   \<and> map score_g (groupedCandidates None
         [example_candidate ''SSN'' ''1'' 1 (Some (- 5)) None,
          example_candidate ''SSN'' ''1'' 1 None None])
       = [None]"
  by (simp add: groupedCandidates_def grouped_map_def absorb_def candidate_key_def new_group_def
      merge_group_def meta_def truthy_def truthy_opt_def score_or_def sort_cmp_def
      example_candidate_def effective_category_def)

section \<open>Properties of the working file set\<close>

subsection \<open>The map key determines name, byte length and time stamp\<close>

lemma of_char_digit: "d < 10 \<Longrightarrow> (of_char (digit_char d) :: nat) = 48 + d"
  by (simp add: digit_char_def)

lemma digit_char_inj: "a < 10 \<Longrightarrow> b < 10 \<Longrightarrow> digit_char a = digit_char b \<Longrightarrow> a = b"
  by (metis of_char_digit add_left_cancel)

lemma digit_char_not_colon: "d < 10 \<Longrightarrow> digit_char d \<noteq> CHR '':''"
proof
  assume "d < 10" "digit_char d = CHR '':''"
  then have "(of_char (CHR '':'') :: nat) = 48 + d" by (metis of_char_digit)
  with \<open>d < 10\<close> show False by simp
qed

lemma digit_char_not_minus: "d < 10 \<Longrightarrow> digit_char d \<noteq> CHR ''-''"
proof
  assume "d < 10" "digit_char d = CHR ''-''"
  then have "(of_char (CHR ''-'') :: nat) = 48 + d" by (metis of_char_digit)
  then show False by simp
qed

lemma show_nat_digits: "set (show_nat n) \<subseteq> digit_char ` {..<10}"
proof (induction n rule: show_nat.induct)
  case (1 n)
  show ?case
  proof (cases "n < 10")
    case True
    then show ?thesis by (simp add: show_nat.simps [of n])
  next
    case False
    with 1 show ?thesis by (simp add: show_nat.simps [of n])
  qed
qed

lemma show_nat_nonempty: "show_nat n \<noteq> []"
  by (simp add: show_nat.simps [of n])

lemma show_nat_no_colon: "CHR '':'' \<notin> set (show_nat n)"
  using show_nat_digits [of n] digit_char_not_colon by fastforce

lemma show_nat_no_minus: "CHR ''-'' \<notin> set (show_nat n)"
  using show_nat_digits [of n] digit_char_not_minus by fastforce

lemma show_nat_inj: "show_nat n = show_nat m \<Longrightarrow> n = m"
proof (induction n arbitrary: m rule: show_nat.induct)
  case (1 n)
  show ?case
  proof (cases "n < 10")
    case n: True
    show ?thesis
    proof (cases "m < 10")
      case True
      with n "1.prems" show ?thesis
        by (simp add: show_nat.simps [of n] show_nat.simps [of m] digit_char_inj)
    next
      case False
      with n "1.prems" show_nat_nonempty [of "m div 10"] show ?thesis
        by (simp add: show_nat.simps [of n] show_nat.simps [of m])
    qed
  next
    case n: False
    show ?thesis
    proof (cases "m < 10")
      case True
      with n "1.prems" show_nat_nonempty [of "n div 10"] show ?thesis
        by (simp add: show_nat.simps [of n] show_nat.simps [of m])
    next
      case False
      with n "1.prems" have eq: "show_nat (n div 10) = show_nat (m div 10)"
        "digit_char (n mod 10) = digit_char (m mod 10)"
        by (simp_all add: show_nat.simps [of n] show_nat.simps [of m])
      from "1.IH" [OF n eq(1)] have "n div 10 = m div 10" .
      moreover from eq(2) have "n mod 10 = m mod 10" by (simp add: digit_char_inj)
      ultimately show ?thesis by (metis div_mult_mod_eq)
    qed
  qed
qed

lemma show_int_no_colon: "CHR '':'' \<notin> set (show_int i)"
  by (simp add: show_int_def show_nat_no_colon)

lemma show_int_inj: "show_int i = show_int j \<Longrightarrow> i = j"
proof -
  assume eq: "show_int i = show_int j"
  have no_minus: "CHR ''-'' # xs \<noteq> show_nat n" for xs n
    using show_nat_no_minus [of n] by (metis list.set_intros(1))
  show ?thesis
  proof (cases "i < 0")
    case i: True
    show ?thesis
    proof (cases "j < 0")
      case True
      with i eq have "nat (- i) = nat (- j)" by (simp add: show_int_def show_nat_inj)
      with i True show ?thesis by simp
    next
      case False
      with i eq no_minus [of "show_nat (nat (- i))" "nat j"] show ?thesis
        by (simp add: show_int_def)
    qed
  next
    case i: False
    show ?thesis
    proof (cases "j < 0")
      case True
      with i eq no_minus [of "show_nat (nat (- j))" "nat i"] show ?thesis
        by (simp add: show_int_def)
    next
      case False
      with i eq have "nat i = nat j" by (simp add: show_int_def show_nat_inj)
      with i False show ?thesis by simp
    qed
  qed
qed

lemma split_at_first:
  "xs @ c # ys = xs' @ c # ys' \<Longrightarrow> c \<notin> set xs \<Longrightarrow> c \<notin> set xs' \<Longrightarrow> xs = xs' \<and> ys = ys'"
proof (induction xs arbitrary: xs')
  case Nil
  then show ?case by (cases xs') auto
next
  case (Cons x xs)
  then show ?case by (cases xs') auto
qed

lemma split_at_last:
  assumes "xs @ c # ys = xs' @ c # ys'" "c \<notin> set ys" "c \<notin> set ys'"
  shows "xs = xs' \<and> ys = ys'"
proof -
  from assms(1) have "rev (xs @ c # ys) = rev (xs' @ c # ys')" by simp
  then have "rev ys @ c # rev xs = rev ys' @ c # rev xs'" by simp
  from split_at_first [OF this] assms(2,3) show ?thesis by simp
qed

lemma fileKey_eq_iff: "fileKey a = fileKey b \<longleftrightarrow> same_identity a b"
proof
  assume "fileKey a = fileKey b"
  then have eq: "(name a @ CHR '':'' # show_nat (size_bytes a)) @ CHR '':'' # show_int (lastModified a)
      = (name b @ CHR '':'' # show_nat (size_bytes b)) @ CHR '':'' # show_int (lastModified b)"
    by (simp add: fileKey_def)
  from split_at_last [OF eq show_int_no_colon show_int_no_colon]
  have 1: "name a @ CHR '':'' # show_nat (size_bytes a) = name b @ CHR '':'' # show_nat (size_bytes b)"
    and 2: "show_int (lastModified a) = show_int (lastModified b)" by simp_all
  from split_at_last [OF 1 show_nat_no_colon show_nat_no_colon] 2
  show "same_identity a b" by (simp add: same_identity_def show_nat_inj show_int_inj)
next
  assume "same_identity a b"
  then show "fileKey a = fileKey b" by (simp add: same_identity_def fileKey_def)
qed

subsection \<open>Building the map and setting one file\<close>

lemma same_identity_iff: "same_identity a b \<longleftrightarrow> file_identity a = file_identity b"
  by (auto simp: same_identity_def file_identity_def)

lemma distinct_fileKey_iff:
  "distinct (map fileKey fs) \<longleftrightarrow> distinct (map file_identity fs)"
proof -
  have "inj_on fileKey (set fs) \<longleftrightarrow> inj_on file_identity (set fs)"
    by (simp add: inj_on_def fileKey_eq_iff same_identity_iff)
  then show ?thesis by (simp add: distinct_map)
qed

lemma update_fresh: "k \<notin> fst ` set al \<Longrightarrow> AList.update k v al = al @ [(k, v)]"
  by (induction al) auto


lemma list_all_update:
  "P (k, v) \<Longrightarrow> list_all P al \<Longrightarrow> list_all P (AList.update k v al)"
  by (induction al) auto

lemma keyed_set_file: "keyed m \<Longrightarrow> keyed (set_file m f)"
  unfolding keyed_def set_file_def
  by (simp add: distinct_update list_all_update)

lemma keyed_foldl: "keyed m \<Longrightarrow> keyed (foldl set_file m fs)"
  by (induction fs arbitrary: m) (simp_all add: keyed_set_file)

lemma keyed_values: "keyed m \<Longrightarrow> map (fileKey \<circ> snd) m = map fst m"
  by (induction m) (auto simp: keyed_def)

lemma keyed_rebuild:
  "list_all (\<lambda>(k, f). k = fileKey f) m \<Longrightarrow> map ((\<lambda>f. (fileKey f, f)) \<circ> snd) m = m"
  by (induction m) auto

lemma build_map:
  "distinct (map fst m @ map fileKey fs) \<Longrightarrow>
   foldl set_file m fs = m @ map (\<lambda>f. (fileKey f, f)) fs"
proof (induction fs arbitrary: m)
  case Nil
  then show ?case by simp
next
  case (Cons f fs)
  from Cons.prems have fresh: "fileKey f \<notin> fst ` set m" by auto
  then have step: "set_file m f = m @ [(fileKey f, f)]"
    by (simp add: set_file_def update_fresh)
  from Cons.prems have "distinct (map fst (m @ [(fileKey f, f)]) @ map fileKey fs)" by auto
  from Cons.IH [OF this] step show ?case by simp
qed

lemma build_map_empty:
  "distinct (map fileKey fs) \<Longrightarrow> foldl set_file [] fs = map (\<lambda>f. (fileKey f, f)) fs"
  using build_map [of "[]" fs] by simp

lemma mergeFiles_invariant:
  assumes "distinct (map file_identity prev)"
  shows "distinct (map file_identity (mergeFiles prev incoming))"
proof (cases "length incoming = 0")
  case True
  with assms show ?thesis by (simp add: mergeFiles_def)
next
  case False
  let ?m = "foldl set_file (foldl set_file [] prev) incoming"
  have "keyed ?m"
    by (intro keyed_foldl) (simp add: keyed_def)
  then have "distinct (map (fileKey \<circ> snd) ?m)"
    by (simp add: keyed_values keyed_def)
  then have "distinct (map fileKey (map snd ?m))"
    by simp
  then have "distinct (map file_identity (map snd ?m))"
    by (simp only: distinct_fileKey_iff)
  with False show ?thesis by (simp add: mergeFiles_def)
qed

text \<open>
  The working set is the \<open>files\<close> state. It starts empty, is emptied after a scan is
  created and is otherwise only replaced by the result of \<open>mergeFiles\<close>, so no two of
  its files agree in name, byte length and time stamp: the empty list has this
  property and \<open>mergeFiles_invariant\<close> keeps it. The next lemma says that merging
  several files is merging them one after the other.
\<close>

lemma mergeFiles_snoc:
  assumes "distinct (map file_identity prev)" "incoming \<noteq> []"
  shows "mergeFiles prev (incoming @ [f]) = mergeFiles (mergeFiles prev incoming) [f]"
proof -
  let ?m = "foldl set_file (foldl set_file [] prev) incoming"
  have k: "keyed ?m"
    by (intro keyed_foldl) (simp add: keyed_def)
  then have "distinct (map fileKey (map snd ?m))"
    by (simp add: keyed_values keyed_def)
  then have "foldl set_file [] (map snd ?m) = map (\<lambda>f. (fileKey f, f)) (map snd ?m)"
    by (rule build_map_empty)
  also from k have "\<dots> = ?m"
    by (simp add: keyed_def keyed_rebuild)
  finally show ?thesis using assms(2) by (simp add: mergeFiles_def)
qed



section \<open>Properties of the collector\<close>

lemma readAll_until_empty:
  "readAllDirectoryEntries batches EndOfDirectory
     = Some (concat (takeWhile (\<lambda>batch. batch \<noteq> []) batches))"
  by (induction batches) simp_all

lemma readAll_no_empty:
  "[] \<notin> set batches \<Longrightarrow> readAllDirectoryEntries batches EndOfDirectory = Some (concat batches)"
  by (induction batches) auto

lemma mset_pair:
  assumes "mset xs = {#x, y#}"
  shows "xs = [x, y] \<or> xs = [y, x]"
proof -
  from assms have "size (mset xs) = 2" by simp
  then have "length xs = 2" by simp
  then obtain u v where xs: "xs = [u, v]"
    by (metis length_0_conv length_Suc_conv numeral_2_eq_2)
  with assms show ?thesis by (auto simp: add_eq_conv_diff)
qed

lemma those_all_empty:
  "\<forall>x \<in> set xs. f x = Some [] \<Longrightarrow> \<exists>ys. those (map f xs) = Some ys \<and> concat ys = []"
  by (induction xs) auto

text \<open>
  C6. A drop of the folder \<open>root\<close>, which holds the file a.txt and the folder \<open>sub\<close>
  with the file b.txt, and of the file c.txt. The listings of \<open>root\<close> and of \<open>sub\<close> may
  come in any number of non-empty batches, the children of \<open>root\<close> in either order,
  and the two dropped items in either order; each reader reports an empty batch after
  its last one. Then each listing is read to its end, and the collector returns
  payloads whose names are root/a.txt, root/sub/b.txt and c.txt, each exactly once.
\<close>

theorem nested_drop_three_payloads:
  fixes a b c :: File
  assumes names: "name a = ''a.txt''" "name b = ''b.txt''" "name c = ''c.txt''"
    and root: "[] \<notin> set rootBatches"
      "mset (concat rootBatches) =
         {#FileEntry (Some a), DirectoryEntry ''sub'' subBatches EndOfDirectory#}"
    and sub: "[] \<notin> set subBatches" "concat subBatches = [FileEntry (Some b)]"
    and items: "mset dropped =
         {#Some (DirectoryEntry ''root'' rootBatches EndOfDirectory), Some (FileEntry (Some c))#}"
  shows "readAllDirectoryEntries rootBatches EndOfDirectory = Some (concat rootBatches)
       \<and> readAllDirectoryEntries subBatches EndOfDirectory = Some (concat subBatches)
       \<and> (\<exists>fs. extractDroppedFiles \<lparr> dt_items = dropped, dt_files = flat \<rparr> = Some fs
             \<and> mset (map name fs) = {#''root/a.txt'', ''root/sub/b.txt'', ''c.txt''#})"
proof -
  let ?sub = "DirectoryEntry ''sub'' subBatches EndOfDirectory"
  let ?root = "DirectoryEntry ''root'' rootBatches EndOfDirectory"
  have rs: "readAllDirectoryEntries subBatches EndOfDirectory = Some (concat subBatches)"
    using sub(1) by (rule readAll_no_empty)
  have r: "readAllDirectoryEntries rootBatches EndOfDirectory = Some (concat rootBatches)"
    using root(1) by (rule readAll_no_empty)
  have s: "collectFilesFromEntry ?sub ''root'' = Some [b\<lparr> name := ''root/sub/b.txt'' \<rparr>]"
    using sub(2) rs names by (simp add: truthy_def)
  have f: "collectFilesFromEntry (FileEntry (Some a)) ''root'' = Some [a\<lparr> name := ''root/a.txt'' \<rparr>]"
    using names by (simp add: truthy_def)
  from mset_pair [OF root(2)]
  have "\<exists>fs. collectFilesFromEntry ?root [] = Some fs
          \<and> mset (map name fs) = {#''root/a.txt'', ''root/sub/b.txt''#}"
  proof
    assume "concat rootBatches = [FileEntry (Some a), ?sub]"
    with r s f show ?thesis by (simp add: truthy_def)
  next
    assume "concat rootBatches = [?sub, FileEntry (Some a)]"
    with r s f show ?thesis by (simp add: truthy_def)
  qed
  then obtain fs where fs: "collectFilesFromEntry ?root [] = Some fs"
    "mset (map name fs) = {#''root/a.txt'', ''root/sub/b.txt''#}" by blast
  have c: "collectFilesFromEntry (FileEntry (Some c)) [] = Some [c]"
    by (simp add: truthy_def)
  from mset_pair [OF items]
  have "\<exists>fs. extractDroppedFiles \<lparr> dt_items = dropped, dt_files = flat \<rparr> = Some fs
             \<and> mset (map name fs) = {#''root/a.txt'', ''root/sub/b.txt'', ''c.txt''#}"
  proof
    assume "dropped = [Some ?root, Some (FileEntry (Some c))]"
    with fs c names show ?thesis
      by (simp add: extractDroppedFiles_def dropped_entries_def)
  next
    assume "dropped = [Some (FileEntry (Some c)), Some ?root]"
    with fs c names show ?thesis
      by (simp add: extractDroppedFiles_def dropped_entries_def)
  qed
  with r rs show ?thesis by simp
qed

theorem nested_drop_three_payloads_witness:
  "extractDroppedFiles
     \<lparr> dt_items =
         [Some (DirectoryEntry ''root''
                  [[FileEntry (Some (example_file ''a.txt'' 1 0 ''A''))],
                   [DirectoryEntry ''sub'' [[FileEntry (Some (example_file ''b.txt'' 1 0 ''B''))]]
                      EndOfDirectory]]
                  EndOfDirectory),
          Some (FileEntry (Some (example_file ''c.txt'' 1 0 ''C'')))],
       dt_files = [] \<rparr>
   = Some [example_file ''root/a.txt'' 1 0 ''A'', example_file ''root/sub/b.txt'' 1 0 ''B'',
           example_file ''c.txt'' 1 0 ''C'']"
proof -
  let ?a = "example_file ''a.txt'' 1 0 ''A''"
  let ?b = "example_file ''b.txt'' 1 0 ''B''"
  let ?c = "example_file ''c.txt'' 1 0 ''C''"
  let ?subBatches = "[[FileEntry (Some ?b)]]"
  let ?rootBatches = "[[FileEntry (Some ?a)], [DirectoryEntry ''sub'' ?subBatches EndOfDirectory]]"
  let ?dropped = "[Some (DirectoryEntry ''root'' ?rootBatches EndOfDirectory), Some (FileEntry (Some ?c))]"
  have names: "name ?a = ''a.txt''" "name ?b = ''b.txt''" "name ?c = ''c.txt''"
    by (simp_all add: example_file_def)
  have root: "[] \<notin> set ?rootBatches"
    "mset (concat ?rootBatches) = {#FileEntry (Some ?a), DirectoryEntry ''sub'' ?subBatches EndOfDirectory#}"
    by simp_all
  have sub: "[] \<notin> set ?subBatches" "concat ?subBatches = [FileEntry (Some ?b)]"
    by simp_all
  have items: "mset ?dropped =
      {#Some (DirectoryEntry ''root'' ?rootBatches EndOfDirectory), Some (FileEntry (Some ?c))#}"
    by simp
  from nested_drop_three_payloads [OF names root sub items, of "[]"]
  have reads: "readAllDirectoryEntries ?rootBatches EndOfDirectory = Some (concat ?rootBatches)"
    "readAllDirectoryEntries ?subBatches EndOfDirectory = Some (concat ?subBatches)"
    by simp_all
  then show ?thesis
    by (simp add: extractDroppedFiles_def dropped_entries_def truthy_def example_file_def)
qed

text \<open>
  C10. When no item of the drop gives an entry, the collector returns the flat file
  list of the drop. When some item gives an entry and the traversal of every entry
  succeeds with no file (as for empty folders), it returns the same flat file list.
\<close>

theorem empty_traversal_fallback:
  "(dropped_entries dt = [] \<longrightarrow> extractDroppedFiles dt = Some (dt_files dt))
   \<and> (dropped_entries dt \<noteq> [] \<longrightarrow>
        (\<forall>en \<in> set (dropped_entries dt). collectFilesFromEntry en [] = Some []) \<longrightarrow>
        extractDroppedFiles dt = Some (dt_files dt))"
proof (intro conjI impI)
  assume "dropped_entries dt = []"
  then show "extractDroppedFiles dt = Some (dt_files dt)"
    by (simp add: extractDroppedFiles_def)
next
  assume ne: "dropped_entries dt \<noteq> []"
    and "\<forall>en \<in> set (dropped_entries dt). collectFilesFromEntry en [] = Some []"
  from those_all_empty [OF this(2)] obtain collected where
    "those (map (\<lambda>en. collectFilesFromEntry en []) (dropped_entries dt)) = Some collected"
    "concat collected = []" by blast
  with ne show "extractDroppedFiles dt = Some (dt_files dt)"
    by (simp add: extractDroppedFiles_def)
qed

theorem empty_traversal_fallback_witness:
  "dropped_entries
     \<lparr> dt_items = [Some (DirectoryEntry ''empty'' [] EndOfDirectory),
                    Some (DirectoryEntry ''outer'' [[DirectoryEntry ''inner'' [] EndOfDirectory]]
                            EndOfDirectory)],
       dt_files = [example_file ''empty'' 0 0 [], example_file ''outer'' 0 0 []] \<rparr> \<noteq> []
   \<and> extractDroppedFiles
     \<lparr> dt_items = [Some (DirectoryEntry ''empty'' [] EndOfDirectory),
                    Some (DirectoryEntry ''outer'' [[DirectoryEntry ''inner'' [] EndOfDirectory]]
                            EndOfDirectory)],
       dt_files = [example_file ''empty'' 0 0 [], example_file ''outer'' 0 0 []] \<rparr>
     = Some [example_file ''empty'' 0 0 [], example_file ''outer'' 0 0 []]
   \<and> dropped_entries \<lparr> dt_items = [None], dt_files = [example_file ''c.txt'' 1 0 ''C''] \<rparr> = []
   \<and> extractDroppedFiles \<lparr> dt_items = [None], dt_files = [example_file ''c.txt'' 1 0 ''C''] \<rparr>
     = Some [example_file ''c.txt'' 1 0 ''C'']"
proof -
  let ?dt = "\<lparr> dt_items = [Some (DirectoryEntry ''empty'' [] EndOfDirectory),
                    Some (DirectoryEntry ''outer'' [[DirectoryEntry ''inner'' [] EndOfDirectory]]
                            EndOfDirectory)],
       dt_files = [example_file ''empty'' 0 0 [], example_file ''outer'' 0 0 []] \<rparr>"
  let ?flat = "\<lparr> dt_items = [None], dt_files = [example_file ''c.txt'' 1 0 ''C''] \<rparr>"
  have ne: "dropped_entries ?dt \<noteq> []"
    by (simp add: dropped_entries_def)
  have zero: "\<forall>en \<in> set (dropped_entries ?dt). collectFilesFromEntry en [] = Some []"
    by (simp add: dropped_entries_def truthy_def)
  have none: "dropped_entries ?flat = []"
    by (simp add: dropped_entries_def)
  from empty_traversal_fallback [of ?dt] ne zero
  have "extractDroppedFiles ?dt = Some (dt_files ?dt)" by blast
  moreover from empty_traversal_fallback [of ?flat] none
  have "extractDroppedFiles ?flat = Some (dt_files ?flat)" by blast
  ultimately show ?thesis using ne none by simp
qed

section \<open>Properties of the submission and of the OCR column\<close>

subsection \<open>Trimming\<close>

lemma strip_leading_none:
  "\<forall>w \<in> set ws. w \<noteq> [] \<longrightarrow> hd w \<noteq> hd s \<Longrightarrow> s \<noteq> [] \<Longrightarrow> strip_leading ws s = s"
proof -
  assume a: "\<forall>w \<in> set ws. w \<noteq> [] \<longrightarrow> hd w \<noteq> hd s" and s: "s \<noteq> []"
  have "find (\<lambda>w. w \<noteq> [] \<and> take (length w) s = w) ws = None"
  proof (rule ccontr)
    assume "find (\<lambda>w. w \<noteq> [] \<and> take (length w) s = w) ws \<noteq> None"
    then obtain w where "w \<in> set ws" "w \<noteq> []" "take (length w) s = w"
      by (auto simp: find_None_iff)
    moreover from this s have "hd w = hd s" by (metis hd_take length_greater_0_conv)
    ultimately show False using a by blast
  qed
  then show ?thesis by (simp add: strip_leading.simps [of ws s])
qed

lemma strip_leading_Nil: "strip_leading ws [] = []"
proof -
  have "find (\<lambda>w. w \<noteq> [] \<and> take (length w) [] = w) ws = None"
    by (auto simp: find_None_iff)
  then show ?thesis by (simp add: strip_leading.simps [of ws "[]"])
qed

lemma trim_example_name: "trim ''u@example.com'' = ''u@example.com''"
  by (simp add: trim_def strip_leading_none white_space_def)

lemma trim_example_scan: "trim ''Q1'' = ''Q1''"
  by (simp add: trim_def strip_leading_none white_space_def)

lemma trim_blank: "trim ''  '' = []"
  by (simp add: trim_def strip_leading.simps [of _ "''  ''"] strip_leading.simps [of _ "'' ''"]
      strip_leading_Nil white_space_def)

lemma trim_no_break_space: "trim [CHR 0xC2, CHR 0xA0] = []"
  by (simp add: trim_def strip_leading.simps [of _ "[CHR 0xC2, CHR 0xA0]"]
      strip_leading_Nil white_space_def)

subsection \<open>Submission\<close>

text \<open>
  C7. Submitting with no file sets the error about the missing files and does not call
  \<open>api.createScan\<close>. Submitting at least one file for a SentenceTransformer scan without
  a user principal name (empty after trimming), or with one but without a token, sets
  the matching error and does not call \<open>api.createScan\<close> either.
\<close>

theorem admission_errors:
  "(files st = [] \<longrightarrow>
      submitScan now st = SetError ''Select at least one file to scan.'')
   \<and> (files st \<noteq> [] \<and> scanType st = ''sentence_transformer''
        \<and> \<not> truthy (trim (userPrincipalName st)) \<longrightarrow>
      submitScan now st
        = SetError ''User principal name is required for SentenceTransformer scans.'')
   \<and> (files st \<noteq> [] \<and> scanType st = ''sentence_transformer''
        \<and> truthy (trim (userPrincipalName st)) \<and> \<not> truthy_opt (exchangeToken st) \<longrightarrow>
      submitScan now st
        = SetError ''Authenticate with Microsoft before running a SentenceTransformer scan.'')
   \<and> (files st = [] \<or> scanType st = ''sentence_transformer''
          \<and> (\<not> truthy (trim (userPrincipalName st)) \<or> \<not> truthy_opt (exchangeToken st)) \<longrightarrow>
      (\<forall>fs options. submitScan now st \<noteq> CallCreateScan fs options))"
  by (auto simp: submitScan_def)

theorem admission_errors_witness:
  "submitScan example_date (example_form ''classic_nlp'' False [] None [])
     = SetError ''Select at least one file to scan.''
   \<and> submitScan example_date
       (example_form ''sentence_transformer'' False ''  '' (Some ''token'')
          [example_file ''a.txt'' 1 0 ''A''])
     = SetError ''User principal name is required for SentenceTransformer scans.''
   \<and> submitScan example_date
       (example_form ''sentence_transformer'' False ''u@example.com'' None
          [example_file ''a.txt'' 1 0 ''A''])
     = SetError ''Authenticate with Microsoft before running a SentenceTransformer scan.''
   \<and> submitScan example_date
       (example_form ''sentence_transformer'' False ''u@example.com'' (Some [])
          [example_file ''a.txt'' 1 0 ''A''])
     = SetError ''Authenticate with Microsoft before running a SentenceTransformer scan.''
   \<and> submitScan example_date
       (example_form ''sentence_transformer'' False [CHR 0xC2, CHR 0xA0] (Some ''token'')
          [example_file ''a.txt'' 1 0 ''A''])
     = SetError ''User principal name is required for SentenceTransformer scans.''
   \<and> (\<forall>fs options. submitScan example_date (example_form ''classic_nlp'' False [] None [])
         \<noteq> CallCreateScan fs options)"
proof -
  let ?f = "[example_file ''a.txt'' 1 0 ''A'']"
  let ?s1 = "example_form ''classic_nlp'' False [] None []"
  let ?s2 = "example_form ''sentence_transformer'' False ''  '' (Some ''token'') ?f"
  let ?s3 = "example_form ''sentence_transformer'' False ''u@example.com'' None ?f"
  let ?s4 = "example_form ''sentence_transformer'' False ''u@example.com'' (Some []) ?f"
  let ?nbsp = "example_form ''sentence_transformer'' False [CHR 0xC2, CHR 0xA0] (Some ''token'') ?f"
  have 1: "files ?s1 = []"
    by (simp add: example_form_def)
  have 5: "files ?nbsp \<noteq> [] \<and> scanType ?nbsp = ''sentence_transformer''
      \<and> \<not> truthy (trim (userPrincipalName ?nbsp))"
    by (simp add: example_form_def truthy_def trim_no_break_space)
  have 2: "files ?s2 \<noteq> [] \<and> scanType ?s2 = ''sentence_transformer''
      \<and> \<not> truthy (trim (userPrincipalName ?s2))"
    by (simp add: example_form_def truthy_def trim_blank)
  have 3: "files ?s3 \<noteq> [] \<and> scanType ?s3 = ''sentence_transformer''
      \<and> truthy (trim (userPrincipalName ?s3)) \<and> \<not> truthy_opt (exchangeToken ?s3)"
    by (simp add: example_form_def truthy_def truthy_opt_def trim_example_name)
  have 4: "files ?s4 \<noteq> [] \<and> scanType ?s4 = ''sentence_transformer''
      \<and> truthy (trim (userPrincipalName ?s4)) \<and> \<not> truthy_opt (exchangeToken ?s4)"
    by (simp add: example_form_def truthy_def truthy_opt_def trim_example_name)
  have "submitScan example_date ?s1 = SetError ''Select at least one file to scan.''"
    using admission_errors [of ?s1 example_date, THEN conjunct1] 1 by (rule mp)
  moreover have "submitScan example_date ?s2
      = SetError ''User principal name is required for SentenceTransformer scans.''"
    using admission_errors [of ?s2 example_date, THEN conjunct2, THEN conjunct1] 2 by (rule mp)
  moreover have "submitScan example_date ?s3
      = SetError ''Authenticate with Microsoft before running a SentenceTransformer scan.''"
    using admission_errors [of ?s3 example_date, THEN conjunct2, THEN conjunct2, THEN conjunct1] 3
    by (rule mp)
  moreover have "submitScan example_date ?s4
      = SetError ''Authenticate with Microsoft before running a SentenceTransformer scan.''"
    using admission_errors [of ?s4 example_date, THEN conjunct2, THEN conjunct2, THEN conjunct1] 4
    by (rule mp)
  moreover have "submitScan example_date ?nbsp
      = SetError ''User principal name is required for SentenceTransformer scans.''"
    using admission_errors [of ?nbsp example_date, THEN conjunct2, THEN conjunct1] 5 by (rule mp)
  moreover have "\<forall>fs options. submitScan example_date ?s1 \<noteq> CallCreateScan fs options"
    using admission_errors [of ?s1 example_date, THEN conjunct2, THEN conjunct2, THEN conjunct2]
      disjI1 [OF 1]
    by (rule mp)
  ultimately show ?thesis by (intro conjI)
qed

subsection \<open>The OCR cell of a row\<close>

lemma selectedScan_in_list:
  assumes "\<exists>s \<in> set scans. scan_id s = selectedScanId"
  shows "\<exists>s. selectedScan scans selectedScanId = Some s \<and> s \<in> set scans
           \<and> scan_id s = selectedScanId"
proof (cases "selectedScan scans selectedScanId")
  case None
  with assms show ?thesis by (auto simp: selectedScan_def find_None_iff)
next
  case (Some s)
  then show ?thesis by (auto simp: selectedScan_def find_Some_iff)
qed

lemma selectedScan_not_in_list:
  "\<forall>s \<in> set scans. scan_id s \<noteq> selectedScanId \<Longrightarrow> selectedScan scans selectedScanId = None"
  by (auto simp: selectedScan_def find_None_iff)

lemma not_applicable_in_list:
  "selectedScan scans selectedScanId = Some s \<Longrightarrow>
   ocrColumnNotApplicable (activeScanSummary scans selectedScanId scanDetails)
     = (scan_type s = ''sentence_transformer'')"
  by (simp add: activeScanSummary_def ocrColumnNotApplicable_def)

lemma not_applicable_details:
  "selectedScan scans selectedScanId = None \<Longrightarrow>
   ocrColumnNotApplicable (activeScanSummary scans selectedScanId (Some d))
     = (scan_type d = ''sentence_transformer'')"
  by (simp add: activeScanSummary_def ocrColumnNotApplicable_def)

lemma ocr_cell_not_applicable: "ocr_cell True g = ''N/A''"
  by (simp add: ocr_cell_def)

lemma ocr_cell_tri_state: "ocr_cell b g \<in> {''Yes'', ''No'', ''Mixed''} \<Longrightarrow> \<not> b"
  by (auto simp: ocr_cell_def)

text \<open>
  C8. Let the selected scan be in the list of scans with the scan type
  \<open>sentence_transformer\<close>, or let no scan of the list have the selected id while the
  loaded scan details have that scan type. Then the OCR cell of every row of the table
  reads N/A, whatever OCR flags the candidates of the pool carry. And when a cell
  reads Yes, No or Mixed while the scan types in question are among \<open>classic_nlp\<close> and
  \<open>sentence_transformer\<close>, the selected scan of the list, or else the loaded scan
  details, are of the type \<open>classic_nlp\<close>.
\<close>

theorem ocr_not_applicable_bridged:
  "((\<exists>s \<in> set scans. scan_id s = selectedScanId)
      \<and> (\<forall>s \<in> set scans. scan_id s = selectedScanId \<longrightarrow> scan_type s = ''sentence_transformer'')
     \<longrightarrow> (\<forall>g \<in> set (groupedCandidates scanSitCategory candidates).
           ocr_cell (ocrColumnNotApplicable (activeScanSummary scans selectedScanId scanDetails)) g
             = ''N/A''))
   \<and> ((\<forall>s \<in> set scans. scan_id s \<noteq> selectedScanId)
      \<and> scanDetails = Some d \<and> scan_type d = ''sentence_transformer''
     \<longrightarrow> (\<forall>g \<in> set (groupedCandidates scanSitCategory candidates).
           ocr_cell (ocrColumnNotApplicable (activeScanSummary scans selectedScanId scanDetails)) g
             = ''N/A''))
   \<and> (ocr_cell (ocrColumnNotApplicable (activeScanSummary scans selectedScanId scanDetails)) g
         \<in> {''Yes'', ''No'', ''Mixed''}
     \<longrightarrow> ((\<exists>s \<in> set scans. scan_id s = selectedScanId)
            \<and> (\<forall>s \<in> set scans. scan_id s = selectedScanId
                  \<longrightarrow> scan_type s \<in> {''classic_nlp'', ''sentence_transformer''})
           \<longrightarrow> (\<exists>s \<in> set scans. scan_id s = selectedScanId \<and> scan_type s = ''classic_nlp''))
        \<and> ((\<forall>s \<in> set scans. scan_id s \<noteq> selectedScanId)
            \<and> scanDetails = Some d
            \<and> scan_type d \<in> {''classic_nlp'', ''sentence_transformer''}
           \<longrightarrow> scan_type d = ''classic_nlp''))"
proof (intro conjI impI ballI)
  fix g
  assume "(\<exists>s \<in> set scans. scan_id s = selectedScanId)
      \<and> (\<forall>s \<in> set scans. scan_id s = selectedScanId \<longrightarrow> scan_type s = ''sentence_transformer'')"
  then obtain s where "selectedScan scans selectedScanId = Some s"
    "scan_type s = ''sentence_transformer''"
    using selectedScan_in_list [of scans selectedScanId] by blast
  then show "ocr_cell (ocrColumnNotApplicable (activeScanSummary scans selectedScanId scanDetails)) g
      = ''N/A''"
    by (simp add: not_applicable_in_list ocr_cell_not_applicable)
next
  fix g
  assume "(\<forall>s \<in> set scans. scan_id s \<noteq> selectedScanId)
      \<and> scanDetails = Some d \<and> scan_type d = ''sentence_transformer''"
  then have "selectedScan scans selectedScanId = None" "scanDetails = Some d"
    "scan_type d = ''sentence_transformer''"
    by (simp_all add: selectedScan_not_in_list)
  then show "ocr_cell (ocrColumnNotApplicable (activeScanSummary scans selectedScanId scanDetails)) g
      = ''N/A''"
    by (simp add: not_applicable_details ocr_cell_not_applicable)
next
  assume cell: "ocr_cell (ocrColumnNotApplicable (activeScanSummary scans selectedScanId scanDetails)) g
         \<in> {''Yes'', ''No'', ''Mixed''}"
    and "(\<exists>s \<in> set scans. scan_id s = selectedScanId)
            \<and> (\<forall>s \<in> set scans. scan_id s = selectedScanId
                  \<longrightarrow> scan_type s \<in> {''classic_nlp'', ''sentence_transformer''})"
  then obtain s where s: "selectedScan scans selectedScanId = Some s" "s \<in> set scans"
    "scan_id s = selectedScanId" "scan_type s \<in> {''classic_nlp'', ''sentence_transformer''}"
    using selectedScan_in_list [of scans selectedScanId] by blast
  from ocr_cell_tri_state [OF cell] s(1) have "scan_type s \<noteq> ''sentence_transformer''"
    by (simp add: not_applicable_in_list)
  with s(4) have "scan_type s = ''classic_nlp''" by blast
  with s(2,3) show "\<exists>s \<in> set scans. scan_id s = selectedScanId \<and> scan_type s = ''classic_nlp''"
    by blast
next
  assume cell: "ocr_cell (ocrColumnNotApplicable (activeScanSummary scans selectedScanId scanDetails)) g
         \<in> {''Yes'', ''No'', ''Mixed''}"
    and "(\<forall>s \<in> set scans. scan_id s \<noteq> selectedScanId)
            \<and> scanDetails = Some d
            \<and> scan_type d \<in> {''classic_nlp'', ''sentence_transformer''}"
  then have d: "selectedScan scans selectedScanId = None" "scanDetails = Some d"
    "scan_type d \<in> {''classic_nlp'', ''sentence_transformer''}"
    by (simp_all add: selectedScan_not_in_list)
  from ocr_cell_tri_state [OF cell] d(1,2) have "scan_type d \<noteq> ''sentence_transformer''"
    by (simp add: not_applicable_details)
  with d(3) show "scan_type d = ''classic_nlp''" by blast
qed

theorem ocr_not_applicable_bridged_witness:
  "map (ocr_cell (ocrColumnNotApplicable (activeScanSummary
        [\<lparr> scan_id = ''s2'', scan_name = None, scan_type = ''classic_nlp'',
           status = ''COMPLETED'', source_files_count = Some 1 \<rparr>,
         \<lparr> scan_id = ''s1'', scan_name = None, scan_type = ''sentence_transformer'',
           status = ''COMPLETED'', source_files_count = Some 1 \<rparr>] ''s1'' None)))
       (groupedCandidates None
        [\<lparr> candidate_id = ''1'', candidate_type = ''SSN'', value_c = ''123-45-6789'',
           frequency = 1, score = Some 80,
           metadata = Some \<lparr> file_name = Some ''a.txt'', sit_category = None,
                             extraction_module = None, ocr_performed = Some True \<rparr> \<rparr>])
     = [''N/A'']
   \<and> map (ocr_cell (ocrColumnNotApplicable (activeScanSummary
        [\<lparr> scan_id = ''s2'', scan_name = None, scan_type = ''classic_nlp'',
           status = ''COMPLETED'', source_files_count = Some 1 \<rparr>] ''s1''
        (Some \<lparr> scan_id = ''s1'', scan_name = None, scan_type = ''sentence_transformer'',
           status = ''PENDING'', source_files_count = Some 1, detail_sit_category = None \<rparr>))))
       (groupedCandidates None
        [\<lparr> candidate_id = ''1'', candidate_type = ''SSN'', value_c = ''123-45-6789'',
           frequency = 1, score = Some 80,
           metadata = Some \<lparr> file_name = Some ''a.txt'', sit_category = None,
                             extraction_module = None, ocr_performed = Some True \<rparr> \<rparr>])
     = [''N/A'']
   \<and> map ocrStates (groupedCandidates None
        [\<lparr> candidate_id = ''1'', candidate_type = ''SSN'', value_c = ''123-45-6789'',
           frequency = 1, score = Some 80,
           metadata = Some \<lparr> file_name = Some ''a.txt'', sit_category = None,
                             extraction_module = None, ocr_performed = Some True \<rparr> \<rparr>])
     = [[True]]
   \<and> map (ocr_cell (ocrColumnNotApplicable (activeScanSummary
        [\<lparr> scan_id = ''s2'', scan_name = None, scan_type = ''classic_nlp'',
           status = ''COMPLETED'', source_files_count = Some 1 \<rparr>,
         \<lparr> scan_id = ''s1'', scan_name = None, scan_type = ''sentence_transformer'',
           status = ''COMPLETED'', source_files_count = Some 1 \<rparr>] ''s2'' None)))
       (groupedCandidates None
        [\<lparr> candidate_id = ''1'', candidate_type = ''SSN'', value_c = ''123-45-6789'',
           frequency = 1, score = Some 80,
           metadata = Some \<lparr> file_name = Some ''a.txt'', sit_category = None,
                             extraction_module = None, ocr_performed = Some True \<rparr> \<rparr>])
     = [''Yes'']
   \<and> (\<exists>s \<in> set [\<lparr> scan_id = ''s2'', scan_name = None, scan_type = ''classic_nlp'',
                     status = ''COMPLETED'', source_files_count = Some 1 \<rparr>,
                   \<lparr> scan_id = ''s1'', scan_name = None, scan_type = ''sentence_transformer'',
                     status = ''COMPLETED'', source_files_count = Some 1 \<rparr>].
         scan_id s = ''s2'' \<and> scan_type s = ''classic_nlp'')
   \<and> map (ocr_cell (ocrColumnNotApplicable (activeScanSummary [] ''s3''
        (Some \<lparr> scan_id = ''s3'', scan_name = None, scan_type = ''classic_nlp'',
           status = ''PENDING'', source_files_count = Some 1, detail_sit_category = None \<rparr>))))
       (groupedCandidates None
        [\<lparr> candidate_id = ''1'', candidate_type = ''SSN'', value_c = ''123-45-6789'',
           frequency = 1, score = Some 80,
           metadata = Some \<lparr> file_name = Some ''a.txt'', sit_category = None,
                             extraction_module = None, ocr_performed = Some True \<rparr> \<rparr>])
     = [''Yes'']
   \<and> scan_type \<lparr> scan_id = ''s3'', scan_name = None, scan_type = ''classic_nlp'',
           status = ''PENDING'', source_files_count = Some 1, detail_sit_category = None \<rparr>
     = ''classic_nlp''"
proof -
  let ?local = "\<lparr> scan_id = ''s3'', scan_name = None, scan_type = ''classic_nlp'',
           status = ''PENDING'', source_files_count = Some 1, detail_sit_category = None \<rparr>"
  let ?classic = "\<lparr> scan_id = ''s2'', scan_name = None, scan_type = ''classic_nlp'',
           status = ''COMPLETED'', source_files_count = Some 1 \<rparr>"
  let ?bridged = "\<lparr> scan_id = ''s1'', scan_name = None, scan_type = ''sentence_transformer'',
           status = ''COMPLETED'', source_files_count = Some 1 \<rparr>"
  let ?detail = "\<lparr> scan_id = ''s1'', scan_name = None, scan_type = ''sentence_transformer'',
           status = ''PENDING'', source_files_count = Some 1, detail_sit_category = None \<rparr>"
  let ?pool = "[\<lparr> candidate_id = ''1'', candidate_type = ''SSN'', value_c = ''123-45-6789'',
           frequency = 1, score = Some 80,
           metadata = Some \<lparr> file_name = Some ''a.txt'', sit_category = None,
                             extraction_module = None, ocr_performed = Some True \<rparr> \<rparr>]"
  let ?g = "new_group None (hd ?pool)"
  have out: "groupedCandidates None ?pool = [?g]"
    by (simp add: groupedCandidates_def grouped_map_def absorb_def sort_cmp_def)
  have states: "ocrStates ?g = [True]"
    by (simp add: new_group_def meta_def)
  have listed: "(\<exists>s \<in> set [?classic, ?bridged]. scan_id s = ''s1'')
      \<and> (\<forall>s \<in> set [?classic, ?bridged]. scan_id s = ''s1''
            \<longrightarrow> scan_type s = ''sentence_transformer'')"
    by simp
  have unlisted: "(\<forall>s \<in> set [?classic]. scan_id s \<noteq> ''s1'')
      \<and> Some ?detail = Some ?detail \<and> scan_type ?detail = ''sentence_transformer''"
    by simp
  have in_list: "\<forall>g \<in> set (groupedCandidates None ?pool).
      ocr_cell (ocrColumnNotApplicable (activeScanSummary [?classic, ?bridged] ''s1'' None)) g = ''N/A''"
    using ocr_not_applicable_bridged [where scans = "[?classic, ?bridged]"
        and selectedScanId = "''s1''" and scanDetails = None and candidates = ?pool
        and scanSitCategory = None, THEN conjunct1] listed
    by (rule mp)
  have by_details: "\<forall>g \<in> set (groupedCandidates None ?pool).
      ocr_cell (ocrColumnNotApplicable (activeScanSummary [?classic] ''s1'' (Some ?detail))) g = ''N/A''"
    using ocr_not_applicable_bridged [where scans = "[?classic]"
        and selectedScanId = "''s1''" and scanDetails = "Some ?detail" and d = ?detail
        and candidates = ?pool and scanSitCategory = None, THEN conjunct2, THEN conjunct1] unlisted
    by (rule mp)
  have yes: "ocr_cell (ocrColumnNotApplicable (activeScanSummary [?classic, ?bridged] ''s2'' None)) ?g
      = ''Yes''"
    by (simp add: ocr_cell_def ocrColumnNotApplicable_def activeScanSummary_def selectedScan_def
        new_group_def meta_def)
  then have tri: "ocr_cell (ocrColumnNotApplicable (activeScanSummary [?classic, ?bridged] ''s2'' None)) ?g
      \<in> {''Yes'', ''No'', ''Mixed''}"
    by simp
  have types: "(\<exists>s \<in> set [?classic, ?bridged]. scan_id s = ''s2'')
      \<and> (\<forall>s \<in> set [?classic, ?bridged]. scan_id s = ''s2''
            \<longrightarrow> scan_type s \<in> {''classic_nlp'', ''sentence_transformer''})"
    by simp
  from ocr_not_applicable_bridged [where scans = "[?classic, ?bridged]"
      and selectedScanId = "''s2''" and scanDetails = None and g = ?g,
      THEN conjunct2, THEN conjunct2] tri types
  have classic: "\<exists>s \<in> set [?classic, ?bridged]. scan_id s = ''s2'' \<and> scan_type s = ''classic_nlp''"
    by blast
  from in_list out have 1: "map (ocr_cell (ocrColumnNotApplicable
      (activeScanSummary [?classic, ?bridged] ''s1'' None))) (groupedCandidates None ?pool) = [''N/A'']"
    by simp
  from by_details out have 2: "map (ocr_cell (ocrColumnNotApplicable
      (activeScanSummary [?classic] ''s1'' (Some ?detail)))) (groupedCandidates None ?pool) = [''N/A'']"
    by simp
  from out states have 3: "map ocrStates (groupedCandidates None ?pool) = [[True]]"
    by simp
  from yes out have 4: "map (ocr_cell (ocrColumnNotApplicable
      (activeScanSummary [?classic, ?bridged] ''s2'' None))) (groupedCandidates None ?pool) = [''Yes'']"
    by simp
  have yes_local: "ocr_cell (ocrColumnNotApplicable (activeScanSummary [] ''s3'' (Some ?local))) ?g
      = ''Yes''"
    by (simp add: ocr_cell_def ocrColumnNotApplicable_def activeScanSummary_def selectedScan_def
        new_group_def meta_def)
  then have tri_local: "ocr_cell (ocrColumnNotApplicable (activeScanSummary [] ''s3'' (Some ?local))) ?g
      \<in> {''Yes'', ''No'', ''Mixed''}"
    by simp
  have types_local: "(\<forall>s \<in> set ([] :: scan_summary list). scan_id s \<noteq> ''s3'')
      \<and> Some ?local = Some ?local
      \<and> scan_type ?local \<in> {''classic_nlp'', ''sentence_transformer''}"
    by simp
  from ocr_not_applicable_bridged [where scans = "[]" and selectedScanId = "''s3''"
      and scanDetails = "Some ?local" and d = ?local and g = ?g,
      THEN conjunct2, THEN conjunct2] tri_local types_local
  have 6: "scan_type ?local = ''classic_nlp''"
    by blast
  from yes_local out have 5: "map (ocr_cell (ocrColumnNotApplicable
      (activeScanSummary [] ''s3'' (Some ?local)))) (groupedCandidates None ?pool) = [''Yes'']"
    by simp
  from 1 2 3 4 classic 5 6 show ?thesis by (intro conjI)
qed

subsection \<open>The force-OCR option\<close>

text \<open>
  C9. With the scan type \<open>sentence_transformer\<close>, whatever the force-OCR state is: if
  the submission reaches \<open>api.createScan\<close>, the options carry \<open>forceOcr = false\<close> and the
  posted form has no \<open>force_ocr\<close> field. Selecting that scan type leaves the force-OCR
  state off, and so does setting the force-OCR state while that type is selected.
\<close>

theorem force_ocr_never_sent_bridged:
  assumes "scanType st = ''sentence_transformer''"
  shows "(\<forall>fs options. submitScan now st = CallCreateScan fs options \<longrightarrow>
            \<not> opt_forceOcr options
            \<and> ''force_ocr'' \<notin> fst ` set (form_fields (createScan fs options)))
       \<and> \<not> forceOcr (setScanType ''sentence_transformer'' st0)
       \<and> \<not> forceOcr (setForceOcr b st)"
proof -
  have "\<not> opt_forceOcr options
        \<and> ''force_ocr'' \<notin> fst ` set (form_fields (createScan fs options))"
    if "submitScan now st = CallCreateScan fs options" for fs options
  proof -
    from that assms have "\<not> opt_forceOcr options"
      by (auto simp: submitScan_def Let_def split: if_splits)
    then show ?thesis
      by (auto simp: createScan_def field_if_def split: option.splits if_splits)
  qed
  moreover have "\<not> forceOcr (setScanType ''sentence_transformer'' st0)"
    by (simp add: setScanType_def forceOcr_effect_def)
  moreover have "\<not> forceOcr (setForceOcr b st)"
    using assms by (simp add: setForceOcr_def forceOcr_effect_def)
  ultimately show ?thesis by blast
qed

theorem force_ocr_never_sent_bridged_witness:
  "scanType (example_form ''sentence_transformer'' True ''u@example.com'' (Some ''token'')
       [example_file ''a.txt'' 1 0 ''A'']) = ''sentence_transformer''
   \<and> forceOcr (example_form ''sentence_transformer'' True ''u@example.com'' (Some ''token'')
       [example_file ''a.txt'' 1 0 ''A''])
   \<and> (\<exists>options. submitScan example_date
          (example_form ''sentence_transformer'' True ''u@example.com'' (Some ''token'')
             [example_file ''a.txt'' 1 0 ''A''])
          = CallCreateScan [example_file ''a.txt'' 1 0 ''A''] options
        \<and> \<not> opt_forceOcr options
        \<and> ''force_ocr'' \<notin> fst ` set (form_fields
              (createScan [example_file ''a.txt'' 1 0 ''A''] options)))
   \<and> forceOcr (example_form ''classic_nlp'' True [] None [])
   \<and> \<not> forceOcr (setScanType ''sentence_transformer'' (example_form ''classic_nlp'' True [] None []))"
proof -
  let ?f = "[example_file ''a.txt'' 1 0 ''A'']"
  let ?st = "example_form ''sentence_transformer'' True ''u@example.com'' (Some ''token'') ?f"
  let ?init = "example_form ''classic_nlp'' True [] None []"
  have t: "scanType ?st = ''sentence_transformer''" and o: "forceOcr ?st" and o0: "forceOcr ?init"
    by (simp_all add: example_form_def)
  have "\<exists>options. submitScan example_date ?st = CallCreateScan ?f options"
    by (simp add: submitScan_def example_form_def truthy_def truthy_opt_def trim_example_name
        trim_example_scan)
  then obtain options where call: "submitScan example_date ?st = CallCreateScan ?f options"
    by blast
  from force_ocr_never_sent_bridged [OF t, of example_date ?init True] call t o o0
  show ?thesis by blast
qed

end
